theory Spec2Isabelle
  imports Main "HOL-Library.Word"
begin

section \<open>cgrun: a volatile cgroup hierarchy around a program or a running process\<close>

text \<open>
  The development follows \<^verbatim>\<open>cgrun.go\<close> (the revision with attach mode: \<^verbatim>\<open>getTasksFiles\<close>,
  \<^verbatim>\<open>collectPids\<close>, \<^verbatim>\<open>seizePid\<close>). Go maps are association lists whose order is the order
  in which \<^verbatim>\<open>range\<close> happens to visit the map; the operating system is a record of
  directories and files plus the answers of the calls the program cannot influence; every
  system call is logged in a trace, so that order and arguments of the calls can be stated.
\<close>

subsection \<open>Go library functions the program calls\<close>

text \<open>\<^verbatim>\<open>strings.Split(s, "/")\<close>: the pieces between separators, never an empty list.\<close>

fun splitOn :: "char \<Rightarrow> string \<Rightarrow> string list" where
  "splitOn c [] = [[]]"
| "splitOn c (x # xs) =
     (if x = c then [] # splitOn c xs
      else (case splitOn c xs of [] \<Rightarrow> [[x]] | y # ys \<Rightarrow> (x # y) # ys))"

fun joinSlash :: "string list \<Rightarrow> string" where
  "joinSlash [] = []"
| "joinSlash [e] = e"
| "joinSlash (e # es) = e @ ''/'' @ joinSlash es"

text \<open>
  \<^verbatim>\<open>filepath.Clean\<close> on Unix, element by element: empty elements and \<^verbatim>\<open>.\<close> are dropped,
  \<^verbatim>\<open>..\<close> removes the element before it when there is one that is not \<^verbatim>\<open>..\<close> itself, is
  dropped at the root of a rooted path, and is kept otherwise; the empty result is \<^verbatim>\<open>.\<close>.
\<close>

definition cleanElem :: "bool \<Rightarrow> string list \<Rightarrow> string \<Rightarrow> string list" where
  "cleanElem rooted out e =
     (if e = [] \<or> e = ''.'' then out
      else if e = ''..'' then
        (if out \<noteq> [] \<and> last out \<noteq> ''..'' then butlast out
         else if \<not> rooted then out @ [e]
         else out)
      else out @ [e])"

definition Clean :: "string \<Rightarrow> string" where
  "Clean p =
     (let rooted = (case p of [] \<Rightarrow> False | c # _ \<Rightarrow> c = CHR ''/'');
          out = foldl (cleanElem rooted) [] (splitOn CHR ''/'' p);
          s = (if rooted then ''/'' else []) @ joinSlash out
      in if s = [] then ''.'' else s)"

text \<open>
  \<^verbatim>\<open>filepath.Join\<close>: the elements from the first non-empty one on, joined by the separator
  and cleaned; the empty string when every element is empty.
\<close>

definition Join :: "string list \<Rightarrow> string" where
  "Join elem =
     (case dropWhile (\<lambda>e. e = []) elem of [] \<Rightarrow> [] | es \<Rightarrow> Clean (joinSlash es))"

text \<open>\<^verbatim>\<open>filepath.Dir\<close>: everything up to the last separator, cleaned.\<close>

definition Dir :: "string \<Rightarrow> string" where
  "Dir p = Clean (rev (dropWhile (\<lambda>c. c \<noteq> CHR ''/'') (rev p)))"

text \<open>
  \<^verbatim>\<open>strings.Fields\<close> on ASCII text: the maximal runs of characters that are not white
  space (tab, line feed, vertical tab, form feed, carriage return, space).
\<close>

definition isSpace :: "char \<Rightarrow> bool" where
  "isSpace c = (c \<in> set [CHR 0x09, CHR 0x0A, CHR 0x0B, CHR 0x0C, CHR 0x0D, CHR 0x20])"

function Fields :: "string \<Rightarrow> string list" where
  "Fields [] = []"
| "Fields (c # cs) =
     (if isSpace c then Fields cs
      else takeWhile (\<lambda>x. \<not> isSpace x) (c # cs) # Fields (dropWhile (\<lambda>x. \<not> isSpace x) cs))"
  by pat_completeness auto
termination
  by (relation "measure length") (auto simp: le_imp_less_Suc length_dropWhile_le)

text \<open>\<^verbatim>\<open>fmt.Sprintf("%d", n)\<close>: decimal digits, with a minus sign for a negative number.\<close>

definition digitChar :: "nat \<Rightarrow> char" where
  "digitChar d = ''0123456789'' ! d"

fun digitsOf :: "nat \<Rightarrow> string" where
  "digitsOf n = (if n < 10 then [digitChar n] else digitsOf (n div 10) @ [digitChar (n mod 10)])"

declare digitsOf.simps [simp del]

definition itoa :: "int \<Rightarrow> string" where
  "itoa i = (if i < 0 then CHR ''-'' # digitsOf (nat (- i)) else digitsOf (nat i))"

text \<open>\<^verbatim>\<open>hex.EncodeToString\<close>: two lower-case hexadecimal digits per byte.\<close>

definition hexDigit :: "nat \<Rightarrow> char" where
  "hexDigit d = ''0123456789abcdef'' ! d"

definition EncodeToString :: "8 word list \<Rightarrow> string" where
  "EncodeToString bs = concat (map (\<lambda>b. [hexDigit (unat b div 16), hexDigit (unat b mod 16)]) bs)"

text \<open>
  \<^verbatim>\<open>syscall.WaitStatus\<close> on Linux: the low seven bits are zero for a process that exited,
  and then bits 8 to 15 hold its exit status; \<^verbatim>\<open>ExitStatus\<close> is -1 for every other status.
\<close>

definition Exited :: "32 word \<Rightarrow> bool" where
  "Exited st = (take_bit 7 st = 0)"

definition Signaled :: "32 word \<Rightarrow> bool" where
  "Signaled st = (take_bit 7 st \<noteq> 127 \<and> take_bit 7 st \<noteq> 0)"

definition Signal :: "32 word \<Rightarrow> int" where
  "Signal st = (if \<not> Signaled st then - 1 else uint (take_bit 7 st))"

definition ExitStatus :: "32 word \<Rightarrow> int" where
  "ExitStatus st = (if \<not> Exited st then - 1 else uint (take_bit 8 (drop_bit 8 st)))"

subsection \<open>Errors, messages, system calls\<close>

datatype errno = ENOENT | EEXIST | EBUSY | EPERM | EINVAL | EIO | EACCES | ESRCH

text \<open>
  An error value of the program: the one it builds itself with \<^verbatim>\<open>fmt.Errorf\<close>, an error of
  a system call (operation, path, errno), and the run-time panic of an index out of range,
  which unwinds through the same returns.
\<close>

datatype error =
    NotMounted string
  | PathError string string errno
  | Panic

definition IsNotExist :: "error \<Rightarrow> bool" where
  "IsNotExist e = (case e of PathError _ _ ENOENT \<Rightarrow> True | _ \<Rightarrow> False)"

text \<open>What the program prints on its error stream, by format string.\<close>

datatype msg =
    MsgCleanupFailed string error
  | MsgSetupFailed error
  | MsgHierName string
  | MsgInvalidPid int
  | MsgAttachFailed int error
  | MsgNoTarget
  | MsgExecFailed error
  | MsgWritePidFailed string error
  | MsgLookupFailed string error
  | MsgCantExec string error

datatype event =
    EvSignal
  | EvMkdir string "32 word"
  | EvRemove string
  | EvReadFile string "string option"
  | EvWriteFile string string
  | EvStderr msg
  | EvReadlink string
  | EvStart string "string list"
  | EvWait
  | EvReaddir string
  | EvKill int
  | EvSleep
  | EvLookPath string
  | EvExec string "string list"

type_synonym params = "(string \<times> (string \<times> string) list) list"

record options =
  Parent :: string
  Pid :: "int option"
  Tree :: bool

text \<open>
  What stays fixed while the modelled code runs: the globals written only during start-up
  (\<^verbatim>\<open>subsysMountPoints\<close> by \<^verbatim>\<open>initMountPointMap\<close>, \<^verbatim>\<open>opts\<close> by the flag parser), and the
  answers of the operating system that the program does not determine: which directories
  the kernel refuses to remove, which writes it refuses, the link \<^verbatim>\<open>/proc/self/exe\<close>,
  whether the child starts, its wait status, the listing of \<^verbatim>\<open>/proc\<close>, the outcome of each
  liveness probe, the executable search path, and whether \<^verbatim>\<open>execve\<close> fails.
\<close>

record env =
  subsysMountPoints :: "string \<rightharpoonup> string"
  opts :: options
  busy :: "string set"
  rejects :: "string \<Rightarrow> string \<Rightarrow> bool"
  selfExe :: "errno + string"
  startFails :: "errno option"
  waitResult :: "errno + 32 word"
  procEntries :: "errno + string list"
  targetAlive :: "nat \<Rightarrow> bool"
  lookPath :: "string \<rightharpoonup> string"
  execFails :: "string \<Rightarrow> errno option"

text \<open>
  What changes: the directories (with the permission bits they were created with) and
  files of the file system, the trace of calls, the global \<^verbatim>\<open>childStarted\<close>, the goroutine
  installed by \<^verbatim>\<open>setupSignalHandler\<close> (the hierarchy name and parameters its closure holds,
  until it has run), the number of system calls after which a signal wakes that goroutine
  (\<open>None\<close>: no signal arrives), and the number of liveness probes made so far.
\<close>

record world =
  dirs :: "string \<rightharpoonup> 32 word"
  files :: "string \<rightharpoonup> string"
  trace :: "event list"
  childStarted :: bool
  sigHandler :: "(string \<times> params) option"
  sigAfter :: "nat option"
  probes :: nat

definition emit :: "event \<Rightarrow> world \<Rightarrow> world" where
  "emit e w = w\<lparr>trace := trace w @ [e]\<rparr>"

definition eprint :: "msg \<Rightarrow> world \<Rightarrow> world" where
  "eprint m w = emit (EvStderr m) w"

text \<open>
  \<^verbatim>\<open>os.Remove\<close> inside a cgroup mount: a directory goes away together with its control
  files unless the kernel refuses (\<open>EBUSY\<close>: tasks or child groups); a control file cannot
  be unlinked; anything else does not exist. Nothing below the directory is visited.
\<close>

definition osRemove :: "env \<Rightarrow> string \<Rightarrow> world \<Rightarrow> error option \<times> world" where
  "osRemove E p w0 =
     (let w = emit (EvRemove p) w0 in
      if p \<in> dom (dirs w) then
        (if p \<in> busy E then (Some (PathError ''remove'' p EBUSY), w)
         else (None, w\<lparr>dirs := (dirs w)(p := None),
                       files := (\<lambda>q. if Dir q = p then None else files w q)\<rparr>))
      else if p \<in> dom (files w) then (Some (PathError ''remove'' p EPERM), w)
      else (Some (PathError ''remove'' p ENOENT), w))"

subsection \<open>Teardown\<close>

fun cleanupHierarchy :: "env \<Rightarrow> string \<Rightarrow> params \<Rightarrow> world \<Rightarrow> world" where
  "cleanupHierarchy E hirName [] w = w"
| "cleanupHierarchy E hirName ((subsys, vs) # rest) w =
     (case subsysMountPoints E subsys of
        None \<Rightarrow> cleanupHierarchy E hirName rest w
      | Some mountPoint \<Rightarrow>
          if mountPoint = [] then cleanupHierarchy E hirName rest w
          else
            (let hirPath = Join [mountPoint, hirName] in
             case osRemove E hirPath w of
               (Some err, w1) \<Rightarrow>
                 if \<not> IsNotExist err
                 then cleanupHierarchy E hirName rest (eprint (MsgCleanupFailed hirPath err) w1)
                 else cleanupHierarchy E hirName rest w1
             | (None, w1) \<Rightarrow> cleanupHierarchy E hirName rest w1))"

subsection \<open>The signal goroutine\<close>

text \<open>
  \<^verbatim>\<open>setupSignalHandler\<close> starts a goroutine that waits for one interrupt, hangup or
  termination signal and then, if \<^verbatim>\<open>childStarted\<close> is false, runs the handler; it does
  nothing else and ends. \<open>deliver\<close> is the scheduling point in front of every system call
  of the main flow: the signal counter runs down, and at zero the goroutine runs.
\<close>

definition setupSignalHandler :: "string \<Rightarrow> params \<Rightarrow> world \<Rightarrow> world" where
  "setupSignalHandler hirName ps w = w\<lparr>sigHandler := Some (hirName, ps)\<rparr>"

definition deliver :: "env \<Rightarrow> world \<Rightarrow> world" where
  "deliver E w =
     (case sigHandler w of
        None \<Rightarrow> w
      | Some (hirName, ps) \<Rightarrow>
          (case sigAfter w of
             None \<Rightarrow> w
           | Some 0 \<Rightarrow>
               (let w1 = emit EvSignal (w\<lparr>sigHandler := None, sigAfter := None\<rparr>) in
                if \<not> childStarted w1 then cleanupHierarchy E hirName ps w1 else w1)
           | Some (Suc n) \<Rightarrow> w\<lparr>sigAfter := Some n\<rparr>))"

subsection \<open>System calls of the main flow\<close>

definition osMkdir :: "env \<Rightarrow> string \<Rightarrow> 32 word \<Rightarrow> world \<Rightarrow> error option \<times> world" where
  "osMkdir E p m w0 =
     (let w = emit (EvMkdir p m) (deliver E w0) in
      if p \<in> dom (dirs w) \<or> p \<in> dom (files w) then (Some (PathError ''mkdir'' p EEXIST), w)
      else if Dir p \<notin> dom (dirs w) then (Some (PathError ''mkdir'' p ENOENT), w)
      else (None, w\<lparr>dirs := (dirs w)(p \<mapsto> m)\<rparr>))"

definition ReadFile :: "env \<Rightarrow> string \<Rightarrow> world \<Rightarrow> (error + string) \<times> world" where
  "ReadFile E p w0 =
     (let w = deliver E w0 in
      case files w p of
        None \<Rightarrow> (Inl (PathError ''open'' p ENOENT), emit (EvReadFile p None) w)
      | Some buf \<Rightarrow> (Inr buf, emit (EvReadFile p (Some buf)) w))"

definition WriteFile :: "env \<Rightarrow> string \<Rightarrow> string \<Rightarrow> world \<Rightarrow> error option \<times> world" where
  "WriteFile E p buf w0 =
     (let w = emit (EvWriteFile p buf) (deliver E w0) in
      if p \<in> dom (dirs w) then (Some (PathError ''open'' p EACCES), w)
      else if Dir p \<notin> dom (dirs w) then (Some (PathError ''open'' p ENOENT), w)
      else if rejects E p buf then (Some (PathError ''write'' p EINVAL), w)
      else (None, w\<lparr>files := (files w)(p \<mapsto> buf)\<rparr>))"

subsection \<open>Creating the hierarchy\<close>

definition mandatoryParameters :: "string \<rightharpoonup> string list" where
  "mandatoryParameters = [''cpuset'' \<mapsto> [''cpus'', ''mems'']]"

fun copyMandatory :: "env \<Rightarrow> string \<Rightarrow> string \<Rightarrow> string list \<Rightarrow> world \<Rightarrow> error option \<times> world" where
  "copyMandatory E hirPath subsys [] w = (None, w)"
| "copyMandatory E hirPath subsys (param # rest) w =
     (let parentPath = Join [Dir hirPath, subsys @ ''.'' @ param] in
      case ReadFile E parentPath w of
        (Inl err, w1) \<Rightarrow> (Some err, w1)
      | (Inr buf, w1) \<Rightarrow>
          (let path = Join [hirPath, subsys @ ''.'' @ param] in
           case WriteFile E path buf w1 of
             (Some err, w2) \<Rightarrow> (Some err, w2)
           | (None, w2) \<Rightarrow> copyMandatory E hirPath subsys rest w2))"

fun writeValues :: "env \<Rightarrow> string \<Rightarrow> string \<Rightarrow> (string \<times> string) list \<Rightarrow> world \<Rightarrow> error option \<times> world" where
  "writeValues E hirPath subsys [] w = (None, w)"
| "writeValues E hirPath subsys ((param, val) # rest) w =
     (let path = Join [hirPath, subsys @ ''.'' @ param] in
      case WriteFile E path val w of
        (Some err, w1) \<Rightarrow> (Some err, w1)
      | (None, w1) \<Rightarrow> writeValues E hirPath subsys rest w1)"

text \<open>The body of the loop over the subsystems, for one subsystem with a mount point.\<close>

definition setupSubsys :: "env \<Rightarrow> string \<Rightarrow> string \<Rightarrow> (string \<times> string) list \<Rightarrow> world \<Rightarrow> error option \<times> world" where
  "setupSubsys E hirPath subsys vs w =
     (case osMkdir E hirPath 488 w of
        (Some err, w1) \<Rightarrow> (Some err, w1)
      | (None, w1) \<Rightarrow>
          (case (case mandatoryParameters subsys of
                   None \<Rightarrow> (None, w1)
                 | Some mandParams \<Rightarrow> copyMandatory E hirPath subsys mandParams w1) of
             (Some err, w2) \<Rightarrow> (Some err, w2)
           | (None, w2) \<Rightarrow> writeValues E hirPath subsys vs w2))"

fun setupLoop :: "env \<Rightarrow> string \<Rightarrow> params \<Rightarrow> world \<Rightarrow> error option \<times> world" where
  "setupLoop E hirName [] w = (None, w)"
| "setupLoop E hirName ((subsys, vs) # rest) w =
     (case subsysMountPoints E subsys of
        None \<Rightarrow> (Some (NotMounted subsys), w)
      | Some mountPoint \<Rightarrow>
          if mountPoint = [] then (Some (NotMounted subsys), w)
          else
            (case setupSubsys E (Join [mountPoint, hirName]) subsys vs w of
               (Some err, w1) \<Rightarrow> (Some err, w1)
             | (None, w1) \<Rightarrow> setupLoop E hirName rest w1))"

text \<open>
  \<^verbatim>\<open>setupHierarchy\<close>: the handler is installed first; the deferred function tears the
  hierarchy down when the loop ends with an error.
\<close>

definition setupHierarchy :: "env \<Rightarrow> string \<Rightarrow> params \<Rightarrow> world \<Rightarrow> error option \<times> world" where
  "setupHierarchy E hirName ps w =
     (case setupLoop E hirName ps (setupSignalHandler hirName ps w) of
        (Some err, w1) \<Rightarrow> (Some err, cleanupHierarchy E hirName ps w1)
      | (None, w1) \<Rightarrow> (None, w1))"

subsection \<open>Hierarchy naming\<close>

text \<open>
  \<^verbatim>\<open>makeHierarchyName\<close>: the seed is the sum of the wall-clock second count and the process
  identifier, both \<^verbatim>\<open>int64\<close>; its decimal text is hashed and the digest printed in
  hexadecimal. The digest function of \<^verbatim>\<open>crypto/md5\<close> is a parameter.
\<close>

definition makeHierarchyName :: "(string \<Rightarrow> 8 word list) \<Rightarrow> 64 word \<Rightarrow> 64 word \<Rightarrow> string" where
  "makeHierarchyName md5 now pid =
     (let seed = now + pid in EncodeToString (md5 (itoa (sint seed))))"

subsection \<open>Launch mode\<close>

definition HelperInitProgName :: string where
  "HelperInitProgName = ''__cgrun_init__''"

fun getTasksFiles :: "env \<Rightarrow> string \<Rightarrow> params \<Rightarrow> error + string list" where
  "getTasksFiles E hirName [] = Inr []"
| "getTasksFiles E hirName ((subsys, vs) # rest) =
     (case subsysMountPoints E subsys of
        None \<Rightarrow> Inl (NotMounted subsys)
      | Some mountPoint \<Rightarrow>
          if mountPoint = [] then Inl (NotMounted subsys)
          else
            (case getTasksFiles E hirName rest of
               Inl err \<Rightarrow> Inl err
             | Inr helperArgs \<Rightarrow> Inr (Join [mountPoint, hirName, ''tasks''] # helperArgs)))"

definition osReadlink :: "env \<Rightarrow> string \<Rightarrow> world \<Rightarrow> (error + string) \<times> world" where
  "osReadlink E p w0 =
     (let w = emit (EvReadlink p) (deliver E w0) in
      case selfExe E of
        Inl e \<Rightarrow> (Inl (PathError ''readlink'' p e), w)
      | Inr target \<Rightarrow> (Inr target, w))"

definition cmdStart :: "env \<Rightarrow> string \<Rightarrow> string list \<Rightarrow> world \<Rightarrow> error option \<times> world" where
  "cmdStart E path argv w0 =
     (let w = emit (EvStart path argv) (deliver E w0) in
      case startFails E of
        Some e \<Rightarrow> (Some (PathError ''fork/exec'' path e), w)
      | None \<Rightarrow> (None, w))"

text \<open>
  \<^verbatim>\<open>cmd.Wait\<close> returns no error when the child's \<^verbatim>\<open>ExitStatus\<close> is 0, an
  \<^verbatim>\<open>*exec.ExitError\<close> holding the wait status otherwise, and another error when waiting
  itself failed.
\<close>

datatype waitErr = ExitError "32 word" | WaitFailed error

definition cmdWait :: "env \<Rightarrow> world \<Rightarrow> waitErr option \<times> world" where
  "cmdWait E w0 =
     (let w = emit EvWait (deliver E w0) in
      case waitResult E of
        Inl e \<Rightarrow> (Some (WaitFailed (PathError ''wait'' [] e)), w)
      | Inr st \<Rightarrow> if ExitStatus st = 0 then (None, w) else (Some (ExitError st), w))"

definition execProgram :: "env \<Rightarrow> string \<Rightarrow> params \<Rightarrow> string list \<Rightarrow> world \<Rightarrow> (int \<times> error option) \<times> world" where
  "execProgram E hirName ps args w =
     (case getTasksFiles E hirName ps of
        Inl err \<Rightarrow> ((- 1, Some err), w)
      | Inr tasks \<Rightarrow>
          (let helperArgs = tasks @ [''--''] @ args in
           case osReadlink E ''/proc/self/exe'' w of
             (Inl err, w1) \<Rightarrow> ((- 1, Some err), w1)
           | (Inr selfPath, w1) \<Rightarrow>
               (case cmdStart E selfPath (HelperInitProgName # helperArgs) w1 of
                  (Some err, w2) \<Rightarrow> ((- 1, Some err), w2)
                | (None, w2) \<Rightarrow>
                    (let w3 = eprint (MsgHierName hirName) (w2\<lparr>childStarted := True\<rparr>) in
                     case cmdWait E w3 of
                       (Some (ExitError status), w4) \<Rightarrow> ((ExitStatus status, None), w4)
                     | (Some (WaitFailed err), w4) \<Rightarrow> ((- 1, Some err), w4)
                     | (None, w4) \<Rightarrow> ((0, None), w4)))))"

subsection \<open>Attach mode\<close>

definition isPidFile :: "string \<Rightarrow> bool" where
  "isPidFile name = list_all (\<lambda>c. \<not> ((of_char c :: nat) < 48 \<or> (of_char c :: nat) > 57)) name"

fun writeTasks :: "env \<Rightarrow> string \<Rightarrow> string list \<Rightarrow> world \<Rightarrow> error option \<times> world" where
  "writeTasks E pidByte [] w = (None, w)"
| "writeTasks E pidByte (tasksFile # rest) w =
     (case WriteFile E tasksFile pidByte w of
        (Some err, w1) \<Rightarrow> (Some err, w1)
      | (None, w1) \<Rightarrow> writeTasks E pidByte rest w1)"

text \<open>\<^verbatim>\<open>os.Open("/proc")\<close>, \<^verbatim>\<open>Readdirnames(-1)\<close> and \<^verbatim>\<open>Close\<close>.\<close>

definition readProcNames :: "env \<Rightarrow> world \<Rightarrow> (error + string list) \<times> world" where
  "readProcNames E w0 =
     (let w = emit (EvReaddir ''/proc'') (deliver E w0) in
      case procEntries E of
        Inl e \<Rightarrow> (Inl (PathError ''open'' ''/proc'' e), w)
      | Inr names \<Rightarrow> (Inr names, w))"

text \<open>
  \<^verbatim>\<open>collectPids\<close> calls itself for every child it finds and stops only when a process has
  no child in the listing; the first argument bounds the depth of these calls, and
  \<open>None\<close> says that the bound was reached. \<open>scanProc\<close> is its loop over the entries.
\<close>

fun collectPids :: "env \<Rightarrow> nat \<Rightarrow> string \<Rightarrow> string list \<Rightarrow> world \<Rightarrow> (error option \<times> world) option"
  and scanProc :: "env \<Rightarrow> nat \<Rightarrow> string \<Rightarrow> string list \<Rightarrow> string list \<Rightarrow> world \<Rightarrow> (error option \<times> world) option"
where
  "collectPids E 0 pid tasksFiles w = None"
| "collectPids E (Suc n) pid tasksFiles w =
     (case writeTasks E pid tasksFiles w of
        (Some err, w1) \<Rightarrow> Some (Some err, w1)
      | (None, w1) \<Rightarrow>
          if \<not> Tree (opts E) then Some (None, w1)
          else
            (case readProcNames E w1 of
               (Inl err, w2) \<Rightarrow> Some (Some err, w2)
             | (Inr dirEnts, w2) \<Rightarrow> scanProc E n pid tasksFiles dirEnts w2))"
| "scanProc E n pid tasksFiles [] w = Some (None, w)"
| "scanProc E n pid tasksFiles (name # rest) w =
     (if \<not> isPidFile name then scanProc E n pid tasksFiles rest w
      else
        (case ReadFile E (''/proc/'' @ name @ ''/stat'') w of
           (Inl err, w1) \<Rightarrow> Some (Some err, w1)
         | (Inr buf, w1) \<Rightarrow>
             (let f = Fields buf in
              if length f < 4 then Some (Some Panic, w1)
              else if f ! 3 = pid then
                (case collectPids E n (f ! 0) tasksFiles w1 of
                   None \<Rightarrow> None
                 | Some (Some err, w2) \<Rightarrow> Some (Some err, w2)
                 | Some (None, w2) \<Rightarrow> scanProc E n pid tasksFiles rest w2)
              else scanProc E n pid tasksFiles rest w1)))"

text \<open>
  \<^verbatim>\<open>syscall.Kill(pid, 0)\<close>: whether the probe returns no error is the environment's answer
  to the probe of that number.
\<close>

definition sysKill :: "env \<Rightarrow> int \<Rightarrow> world \<Rightarrow> bool \<times> world" where
  "sysKill E pid w0 =
     (let w = emit (EvKill pid) (deliver E w0) in
      (targetAlive E (probes w), w\<lparr>probes := Suc (probes w)\<rparr>))"

definition timeSleep :: "env \<Rightarrow> world \<Rightarrow> world" where
  "timeSleep E w0 = emit EvSleep (deliver E w0)"

text \<open>The polling loop may run forever; the first argument bounds the number of probes.\<close>

fun waitNonChildPid :: "env \<Rightarrow> nat \<Rightarrow> int \<Rightarrow> world \<Rightarrow> world option" where
  "waitNonChildPid E 0 pid w = None"
| "waitNonChildPid E (Suc n) pid w =
     (case sysKill E pid w of
        (True, w1) \<Rightarrow> waitNonChildPid E n pid (timeSleep E w1)
      | (False, w1) \<Rightarrow> Some w1)"

definition seizePid :: "env \<Rightarrow> nat \<Rightarrow> string \<Rightarrow> params \<Rightarrow> int \<Rightarrow> world \<Rightarrow> (error option \<times> world) option" where
  "seizePid E fuel hirName ps pid w =
     (let w1 = w\<lparr>childStarted := True\<rparr> in
      case getTasksFiles E hirName ps of
        Inl err \<Rightarrow> Some (Some err, w1)
      | Inr tasksFiles \<Rightarrow>
          (case collectPids E fuel (itoa pid) tasksFiles w1 of
             None \<Rightarrow> None
           | Some (Some err, w2) \<Rightarrow> Some (Some err, w2)
           | Some (None, w2) \<Rightarrow>
               (case waitNonChildPid E fuel pid (eprint (MsgHierName hirName) w2) of
                  None \<Rightarrow> None
                | Some w3 \<Rightarrow> Some (None, w3))))"

subsection \<open>The main flow\<close>

text \<open>
  \<^verbatim>\<open>initialMain\<close> from the point where the flags are parsed, the parameter tokens are
  collected into \<open>ps\<close> (the remaining command line is \<open>args\<close>) and the mount map is built.
  The deferred teardown runs on every return after a successful set-up, also when a panic
  unwinds (the process then ends with status 2).
\<close>

definition initialMain :: "env \<Rightarrow> nat \<Rightarrow> (string \<Rightarrow> 8 word list) \<Rightarrow> 64 word \<Rightarrow> int \<Rightarrow> params \<Rightarrow> string list \<Rightarrow> world \<Rightarrow> (int \<times> world) option" where
  "initialMain E fuel md5 now ownPid ps args w =
     (let baseParent = dropWhile (\<lambda>c. c = CHR ''/'') (Parent (opts E));
          hirName = baseParent @ makeHierarchyName md5 now (word_of_int ownPid) in
      case setupHierarchy E hirName ps w of
        (Some err, w1) \<Rightarrow> Some (1, eprint (MsgSetupFailed err) w1)
      | (None, w1) \<Rightarrow>
          (case (case Pid (opts E) of
                   Some pid \<Rightarrow>
                     if pid \<le> 0 then Some (1, eprint (MsgInvalidPid pid) w1)
                     else
                       (case seizePid E fuel hirName ps pid w1 of
                          None \<Rightarrow> None
                        | Some (Some Panic, w2) \<Rightarrow> Some (2, w2)
                        | Some (Some err, w2) \<Rightarrow> Some (1, eprint (MsgAttachFailed pid err) w2)
                        | Some (None, w2) \<Rightarrow> Some (0, w2))
                 | None \<Rightarrow>
                     if args = [] then Some (1, eprint MsgNoTarget w1)
                     else
                       (case execProgram E hirName ps args w1 of
                          ((exitStatus, Some err), w2) \<Rightarrow> Some (1, eprint (MsgExecFailed err) w2)
                        | ((exitStatus, None), w2) \<Rightarrow> Some (exitStatus, w2))) of
             None \<Rightarrow> None
           | Some (code, w3) \<Rightarrow> Some (code, cleanupHierarchy E hirName ps w3)))"

subsection \<open>The helper\<close>

datatype helperResult = HReplaced string "string list" | HReturned | HCrashed

text \<open>
  The loop of \<^verbatim>\<open>helperMain\<close> over its arguments: \<open>None\<close> when a write failed (the helper
  returns), otherwise the arguments as they stand after the loop: those behind the
  separator, or all of them when there is no separator.
\<close>

fun helperLoop :: "env \<Rightarrow> string \<Rightarrow> string list \<Rightarrow> string list \<Rightarrow> world \<Rightarrow> string list option \<times> world" where
  "helperLoop E pid args [] w = (Some args, w)"
| "helperLoop E pid args (arg # rest) w =
     (if arg = ''--'' then (Some rest, w)
      else
        (case WriteFile E arg pid w of
           (Some err, w1) \<Rightarrow> (None, eprint (MsgWritePidFailed arg err) w1)
         | (None, w1) \<Rightarrow> helperLoop E pid args rest w1))"

definition LookPath :: "env \<Rightarrow> string \<Rightarrow> world \<Rightarrow> (error + string) \<times> world" where
  "LookPath E file w0 =
     (let w = emit (EvLookPath file) (deliver E w0) in
      case lookPath E file of
        None \<Rightarrow> (Inl (PathError ''exec'' file ENOENT), w)
      | Some p \<Rightarrow> (Inr p, w))"

definition sysExec :: "env \<Rightarrow> string \<Rightarrow> string list \<Rightarrow> world \<Rightarrow> error option \<times> world" where
  "sysExec E binPath argv w0 =
     (let w = emit (EvExec binPath argv) (deliver E w0) in
      case execFails E binPath of
        Some e \<Rightarrow> (Some (PathError ''exec'' binPath e), w)
      | None \<Rightarrow> (None, w))"

definition helperMain :: "env \<Rightarrow> int \<Rightarrow> string list \<Rightarrow> world \<Rightarrow> helperResult \<times> world" where
  "helperMain E ownPid osArgs w =
     (case osArgs of
        [] \<Rightarrow> (HCrashed, w)
      | a # args0 \<Rightarrow>
          (case helperLoop E (itoa ownPid) args0 args0 w of
             (None, w1) \<Rightarrow> (HReturned, w1)
           | (Some args, w1) \<Rightarrow>
               (case args of
                  [] \<Rightarrow> (HCrashed, w1)
                | a0 # as \<Rightarrow>
                    (case LookPath E a0 w1 of
                       (Inl err, w2) \<Rightarrow> (HReturned, eprint (MsgLookupFailed a0 err) w2)
                     | (Inr binPath, w2) \<Rightarrow>
                         (case sysExec E binPath args w2 of
                            (Some err, w3) \<Rightarrow> (HReturned, eprint (MsgCantExec a0 err) w3)
                          | (None, w3) \<Rightarrow> (HReplaced binPath args, w3))))))"

text \<open>
  \<^verbatim>\<open>main\<close>: how the process ends. \<open>Exit c\<close> is \<^verbatim>\<open>os.Exit(c)\<close>, \<open>Replaced\<close> the process
  image replaced by the target, \<open>Crashed\<close> a run-time panic (status 2).
\<close>

datatype outcome = Exit int | Replaced string "string list" | Crashed

definition main :: "env \<Rightarrow> nat \<Rightarrow> (string \<Rightarrow> 8 word list) \<Rightarrow> 64 word \<Rightarrow> int \<Rightarrow> string list \<Rightarrow> params \<Rightarrow> string list \<Rightarrow> world \<Rightarrow> (outcome \<times> world) option" where
  "main E fuel md5 now ownPid osArgs ps args w =
     (case osArgs of
        [] \<Rightarrow> Some (Crashed, w)
      | a0 # as \<Rightarrow>
          if a0 = HelperInitProgName then
            (case helperMain E ownPid osArgs w of
               (HReplaced binPath argv, w1) \<Rightarrow> Some (Replaced binPath argv, w1)
             | (HCrashed, w1) \<Rightarrow> Some (Crashed, w1)
             | (HReturned, w1) \<Rightarrow> Some (Exit 1, w1))
          else
            (case initialMain E fuel md5 now ownPid ps args w of
               None \<Rightarrow> None
             | Some (code, w1) \<Rightarrow> Some (Exit code, w1)))"

text \<open>The status the parent of the process sees after \<^verbatim>\<open>os.Exit(c)\<close>: the low eight bits.\<close>

definition statusSeen :: "int \<Rightarrow> int" where
  "statusSeen c = c mod 256"

section \<open>Vocabulary of the properties\<close>

fun hierarchyPaths :: "env \<Rightarrow> string \<Rightarrow> params \<Rightarrow> string list" where
  "hierarchyPaths E hirName [] = []"
| "hierarchyPaths E hirName ((subsys, vs) # rest) =
     (case subsysMountPoints E subsys of
        None \<Rightarrow> hierarchyPaths E hirName rest
      | Some mountPoint \<Rightarrow>
          if mountPoint = [] then hierarchyPaths E hirName rest
          else Join [mountPoint, hirName] # hierarchyPaths E hirName rest)"

definition removals :: "event list \<Rightarrow> string list" where
  "removals t = concat (map (\<lambda>e. case e of EvRemove p \<Rightarrow> [p] | _ \<Rightarrow> []) t)"

definition stderrs :: "event list \<Rightarrow> msg list" where
  "stderrs t = concat (map (\<lambda>e. case e of EvStderr m \<Rightarrow> [m] | _ \<Rightarrow> []) t)"

definition since :: "world \<Rightarrow> world \<Rightarrow> event list" where
  "since w w' = drop (length (trace w)) (trace w')"

definition removeStep :: "env \<Rightarrow> string \<Rightarrow> world \<Rightarrow> world" where
  "removeStep E p w =
     (case osRemove E p w of
        (Some err, w1) \<Rightarrow> if \<not> IsNotExist err then eprint (MsgCleanupFailed p err) w1 else w1
      | (None, w1) \<Rightarrow> w1)"

definition removeReport :: "env \<Rightarrow> string \<Rightarrow> world \<Rightarrow> msg list" where
  "removeReport E p w =
     (if p \<in> dom (dirs w) then
        (if p \<in> busy E then [MsgCleanupFailed p (PathError ''remove'' p EBUSY)] else [])
      else if p \<in> dom (files w) then [MsgCleanupFailed p (PathError ''remove'' p EPERM)]
      else [])"

fun cleanupEvents :: "env \<Rightarrow> world \<Rightarrow> string list \<Rightarrow> event list" where
  "cleanupEvents E w [] = []"
| "cleanupEvents E w (q # qs) =
     EvRemove q # map EvStderr (removeReport E q w) @ cleanupEvents E (removeStep E q w) qs"

text \<open>An example system, used to evaluate the definitions on concrete inputs.\<close>

definition envA :: env where
  "envA = \<lparr> subsysMountPoints =
              [''cpu'' \<mapsto> ''/cg/cpu'', ''cpuset'' \<mapsto> ''/cg/cpuset'', ''memory'' \<mapsto> ''/cg/mem'',
               ''blkio'' \<mapsto> ''/cg/blk'', ''devices'' \<mapsto> []],
            opts = \<lparr> Parent = ''/'', Pid = None, Tree = False \<rparr>,
            busy = {''/cg/mem/h''},
            rejects = (\<lambda>p buf. False),
            selfExe = Inr ''/usr/bin/cgrun'',
            startFails = None,
            waitResult = Inr 1792,
            procEntries = Inr [''1'', ''self'', ''40'', ''41'', ''42''],
            targetAlive = (\<lambda>n. n < 2),
            lookPath = [''foobar'' \<mapsto> ''/usr/bin/foobar''],
            execFails = (\<lambda>p. None) \<rparr>"

definition worldA :: world where
  "worldA = \<lparr> dirs = [''/cg/cpu'' \<mapsto> 493, ''/cg/cpuset'' \<mapsto> 493, ''/cg/mem'' \<mapsto> 493,
                     ''/cg/blk'' \<mapsto> 493],
              files = [''/cg/cpuset/cpuset.cpus'' \<mapsto> ''0-3'', ''/cg/cpuset/cpuset.mems'' \<mapsto> ''0''],
              trace = [],
              childStarted = False,
              sigHandler = None,
              sigAfter = None,
              probes = 0 \<rparr>"

definition paramsA :: params where
  "paramsA = [(''cpu'', [(''shares'', ''1'')]), (''bogus'', []), (''memory'', []),
              (''devices'', []), (''blkio'', [])]"

definition worldB :: world where
  "worldB = worldA\<lparr>dirs := (dirs worldA)(''/cg/cpu/h'' \<mapsto> 488, ''/cg/mem/h'' \<mapsto> 488)\<rparr>"

text \<open>
  Frame conditions. \<open>step P w w'\<close>: the trace of \<open>w'\<close> extends that of \<open>w\<close> by events that
  satisfy \<open>P\<close>, and \<^verbatim>\<open>childStarted\<close> has not been reset. \<open>sigOk P w\<close>: whatever the signal
  goroutine would do in \<open>w\<close> satisfies \<open>P\<close>.
\<close>

definition newEvents :: "(event \<Rightarrow> bool) \<Rightarrow> world \<Rightarrow> world \<Rightarrow> bool" where
  "newEvents P w w' = (\<exists>X. trace w' = trace w @ X \<and> list_all P X)"

definition sigOk :: "(event \<Rightarrow> bool) \<Rightarrow> world \<Rightarrow> bool" where
  "sigOk P w = (P EvSignal \<and> (childStarted w \<or> (\<forall>p. P (EvRemove p)) \<and> (\<forall>m. P (EvStderr m))))"

definition step :: "(event \<Rightarrow> bool) \<Rightarrow> world \<Rightarrow> world \<Rightarrow> bool" where
  "step P w w' = (newEvents P w w' \<and> (childStarted w \<longrightarrow> childStarted w'))"

text \<open>
  Permission bits of a mode: read, write and execute for the owner (bits 8 to 6), the
  group (bits 5 to 3) and everybody else (bits 2 to 0).
\<close>

datatype who = Owner | Group | Other
datatype perm = Read | Write | Execute

definition permBit :: "who \<Rightarrow> perm \<Rightarrow> nat" where
  "permBit who perm =
     (case who of Owner \<Rightarrow> 6 | Group \<Rightarrow> 3 | Other \<Rightarrow> 0) +
     (case perm of Read \<Rightarrow> 2 | Write \<Rightarrow> 1 | Execute \<Rightarrow> 0)"

definition grants :: "32 word \<Rightarrow> who \<Rightarrow> perm \<Rightarrow> bool" where
  "grants m who perm = bit m (permBit who perm)"

definition mkdirs :: "event list \<Rightarrow> (string \<times> 32 word) list" where
  "mkdirs t = concat (map (\<lambda>e. case e of EvMkdir p m \<Rightarrow> [(p, m)] | _ \<Rightarrow> []) t)"

definition setupEvent :: "string set \<Rightarrow> event \<Rightarrow> bool" where
  "setupEvent S e = (case e of EvMkdir p m \<Rightarrow> m = 488 \<and> p \<in> S | _ \<Rightarrow> True)"

definition mounted :: "env \<Rightarrow> string \<Rightarrow> bool" where
  "mounted E subsys = (case subsysMountPoints E subsys of None \<Rightarrow> False | Some mountPoint \<Rightarrow> mountPoint \<noteq> [])"

definition envC :: env where
  "envC = envA\<lparr>subsysMountPoints := [''cpu'' \<mapsto> ''/cg/cc'', ''cpuacct'' \<mapsto> ''/cg/cc'']\<rparr>"

definition paramsC :: params where
  "paramsC = [(''cpu'', [(''shares'', ''512'')]), (''cpuacct'', [(''usage'', ''0'')]),
              (''bogus'', [(''x'', ''1'')])]"

definition worldC :: world where
  "worldC = worldA\<lparr>dirs := [''/cg/cc'' \<mapsto> 493]\<rparr>"

text \<open>
  The calls a successful, undisturbed set-up makes for one subsystem: the directory is
  created, each mandatory parameter is read from the directory one level up and the
  content read written into the new directory, and then the caller's values are written.
  \<open>readsCurrent\<close> says that every read in a trace returned what the file held at that
  time, the writes of the trace before it applied.
\<close>

definition mandOf :: "string \<Rightarrow> string list" where
  "mandOf subsys = (case mandatoryParameters subsys of None \<Rightarrow> [] | Some mandParams \<Rightarrow> mandParams)"

fun inheritEvents :: "string \<Rightarrow> string \<Rightarrow> string list \<Rightarrow> string list \<Rightarrow> event list" where
  "inheritEvents hirPath subsys (param # rest) (buf # bufs) =
     EvReadFile (Join [Dir hirPath, subsys @ ''.'' @ param]) (Some buf)
       # EvWriteFile (Join [hirPath, subsys @ ''.'' @ param]) buf
       # inheritEvents hirPath subsys rest bufs"
| "inheritEvents hirPath subsys rest bufs = []"

definition valueEvents :: "string \<Rightarrow> string \<Rightarrow> (string \<times> string) list \<Rightarrow> event list" where
  "valueEvents hirPath subsys vs =
     map (\<lambda>(param, val). EvWriteFile (Join [hirPath, subsys @ ''.'' @ param]) val) vs"

definition subsysEvents :: "env \<Rightarrow> string \<Rightarrow> string \<times> (string \<times> string) list \<Rightarrow> string list \<Rightarrow> event list" where
  "subsysEvents E hirName sv bufs =
     (case sv of (subsys, vs) \<Rightarrow>
        (let hirPath = Join [the (subsysMountPoints E subsys), hirName] in
         EvMkdir hirPath 488 # inheritEvents hirPath subsys (mandOf subsys) bufs
           @ valueEvents hirPath subsys vs))"

fun applyWrites :: "(string \<rightharpoonup> string) \<Rightarrow> event list \<Rightarrow> (string \<rightharpoonup> string)" where
  "applyWrites fs [] = fs"
| "applyWrites fs (e # es) =
     applyWrites (case e of EvWriteFile p buf \<Rightarrow> fs(p \<mapsto> buf) | _ \<Rightarrow> fs) es"

fun readsCurrent :: "(string \<rightharpoonup> string) \<Rightarrow> event list \<Rightarrow> bool" where
  "readsCurrent fs [] = True"
| "readsCurrent fs (e # es) =
     ((case e of EvReadFile p x \<Rightarrow> fs p = x | _ \<Rightarrow> True)
      \<and> readsCurrent (case e of EvWriteFile p buf \<Rightarrow> fs(p \<mapsto> buf) | _ \<Rightarrow> fs) es)"

definition quietRun :: "world \<Rightarrow> world \<Rightarrow> event list \<Rightarrow> bool" where
  "quietRun w w' X = (trace w' = trace w @ X \<and> sigAfter w' = None \<and> sigHandler w' = sigHandler w
     \<and> files w' = applyWrites (files w) X \<and> readsCurrent (files w) X)"

definition paramsD :: params where
  "paramsD = [(''cpuset'', [(''cpus'', ''0-2'')])]"



definition toyDigest :: "string \<Rightarrow> 8 word list" where
  "toyDigest s = map (\<lambda>c. of_nat (of_char c)) s"

text \<open>
  The hierarchy name as \<^verbatim>\<open>initialMain\<close> builds it; and the status by which a shell reports
  a process killed by signal number \<open>signo\<close>, the usual convention for a signal death.
\<close>

definition hirNameOf :: "env \<Rightarrow> (string \<Rightarrow> 8 word list) \<Rightarrow> 64 word \<Rightarrow> int \<Rightarrow> string" where
  "hirNameOf E md5 now ownPid =
     dropWhile (\<lambda>c. c = CHR ''/'') (Parent (opts E)) @ makeHierarchyName md5 now (word_of_int ownPid)"

definition conventionalSignalStatus :: "int \<Rightarrow> int" where
  "conventionalSignalStatus signo = 128 + signo"

definition envK :: env where
  "envK = envA\<lparr>waitResult := Inr 9\<rparr>"

definition paramsE :: params where
  "paramsE = [(''cpu'', [(''shares'', ''1'')])]"

text \<open>
  When no signal interferes, a write succeeds exactly when the path is not a directory,
  its directory exists and the kernel does not refuse the content; \<open>joined\<close>: this holds
  for the write of the process identifier into every task file.
\<close>

definition writable :: "env \<Rightarrow> world \<Rightarrow> string \<Rightarrow> string \<Rightarrow> bool" where
  "writable E w p buf = (p \<notin> dom (dirs w) \<and> Dir p \<in> dom (dirs w) \<and> \<not> rejects E p buf)"

definition joined :: "env \<Rightarrow> world \<Rightarrow> string list \<Rightarrow> string \<Rightarrow> bool" where
  "joined E w tasks pid = (\<forall>t \<in> set tasks. writable E w t pid)"

definition worldH :: world where
  "worldH = worldA\<lparr>dirs := (dirs worldA)(''/cg/cpu/h'' \<mapsto> 488)\<rparr>"

text \<open>
  Events other than a removal; a world in which the handler is installed and the signal
  arrives at the very next system call; an environment in attach mode.
\<close>

definition notRemoval :: "event \<Rightarrow> bool" where
  "notRemoval e = (case e of EvRemove p \<Rightarrow> False | _ \<Rightarrow> True)"

definition worldS :: world where
  "worldS = worldH\<lparr>sigHandler := Some (''h'', paramsE), sigAfter := Some 0\<rparr>"

definition envP :: env where
  "envP = envA\<lparr>opts := \<lparr> Parent = ''/'', Pid = Some 40, Tree = False \<rparr>\<rparr>"

text \<open>
  Launch mode with a signal that arrives at the third system call, and the world after
  the set-up in that run.
\<close>

definition worldT :: world where
  "worldT = worldA\<lparr>sigAfter := Some 2\<rparr>"

definition worldT1 :: world where
  "worldT1 = worldA\<lparr>dirs := (dirs worldA)(''/cg/cpu/31373030303034323432'' \<mapsto> 488),
                   files := (files worldA)(''/cg/cpu/31373030303034323432/cpu.shares'' \<mapsto> ''1''),
                   trace := [EvMkdir ''/cg/cpu/31373030303034323432'' 488,
                             EvWriteFile ''/cg/cpu/31373030303034323432/cpu.shares'' ''1''],
                   sigHandler := Some (''31373030303034323432'', paramsE),
                   sigAfter := Some 0\<rparr>"

section \<open>Properties\<close>

lemma removals_append [simp]: "removals (a @ b) = removals a @ removals b"
  by (simp add: removals_def)

lemma stderrs_append [simp]: "stderrs (a @ b) = stderrs a @ stderrs b"
  by (simp add: stderrs_def)

lemma since_append: "trace w' = trace w @ X \<Longrightarrow> since w w' = X"
  by (simp add: since_def)

lemma cleanup_fold:
  "cleanupHierarchy E h ps w = foldl (\<lambda>v p. removeStep E p v) w (hierarchyPaths E h ps)"
proof (induction ps arbitrary: w)
  case Nil
  show ?case by simp
next
  case (Cons a ps)
  obtain s vs where a: "a = (s, vs)" by (cases a)
  show ?case
    using Cons.IH
    by (simp add: a removeStep_def Let_def split: option.splits prod.splits)
qed

lemma removeStep_trace:
  "trace (removeStep E p w) = trace w @ EvRemove p # map EvStderr (removeReport E p w)"
  by (simp add: removeStep_def removeReport_def osRemove_def emit_def eprint_def Let_def
      IsNotExist_def)

lemma removeStep_dirs:
  "dirs (removeStep E p w) = (if p \<in> busy E then dirs w else (dirs w)(p := None))"
  by (auto simp: removeStep_def osRemove_def emit_def eprint_def Let_def IsNotExist_def
      fun_eq_iff domIff)

lemma removeStep_files:
  "files (removeStep E p w) =
     (if p \<in> dom (dirs w) \<and> p \<notin> busy E then (\<lambda>q. if Dir q = p then None else files w q)
      else files w)"
  by (auto simp: removeStep_def osRemove_def emit_def eprint_def Let_def IsNotExist_def)

lemma removeStep_rest:
  "childStarted (removeStep E p w) = childStarted w"
  "sigHandler (removeStep E p w) = sigHandler w"
  "sigAfter (removeStep E p w) = sigAfter w"
  "probes (removeStep E p w) = probes w"
  by (auto simp: removeStep_def osRemove_def emit_def eprint_def Let_def IsNotExist_def)

lemma fold_trace:
  "trace (foldl (\<lambda>v p. removeStep E p v) w qs) = trace w @ cleanupEvents E w qs"
  by (induction qs arbitrary: w) (simp_all add: removeStep_trace)

lemma events_removals: "removals (cleanupEvents E w qs) = qs"
  by (induction qs arbitrary: w) (simp_all add: removals_def)

lemma fold_dirs:
  "dirs (foldl (\<lambda>v p. removeStep E p v) w qs) =
     (\<lambda>p. if p \<in> set qs \<and> p \<notin> busy E then None else dirs w p)"
  by (induction qs arbitrary: w) (auto simp: removeStep_dirs fun_eq_iff)

lemma fold_files:
  "files (foldl (\<lambda>v p. removeStep E p v) w qs) =
     (\<lambda>q. if Dir q \<in> set qs \<and> Dir q \<in> dom (dirs w) \<and> Dir q \<notin> busy E then None else files w q)"
  by (induction qs arbitrary: w) (auto simp: removeStep_dirs removeStep_files fun_eq_iff)

lemma fold_rest:
  "childStarted (foldl (\<lambda>v p. removeStep E p v) w qs) = childStarted w"
  "sigHandler (foldl (\<lambda>v p. removeStep E p v) w qs) = sigHandler w"
  "sigAfter (foldl (\<lambda>v p. removeStep E p v) w qs) = sigAfter w"
  "probes (foldl (\<lambda>v p. removeStep E p v) w qs) = probes w"
  by (induction qs arbitrary: w) (simp_all add: removeStep_rest)

lemma removeReport_shape:
  "m \<in> set (removeReport E p w) \<Longrightarrow>
     \<exists>e. m = MsgCleanupFailed p (PathError ''remove'' p e) \<and> e \<noteq> ENOENT"
  by (auto simp: removeReport_def split: if_splits)

lemma stderrs_Cons_Remove [simp]: "stderrs (EvRemove q # t) = stderrs t"
  by (simp add: stderrs_def)

lemma stderrs_map_EvStderr [simp]: "stderrs (map EvStderr ms) = ms"
  by (induction ms) (simp_all add: stderrs_def)

lemma events_stderrs_shape:
  "m \<in> set (stderrs (cleanupEvents E w qs)) \<Longrightarrow>
     \<exists>p \<in> set qs. \<exists>e. m = MsgCleanupFailed p (PathError ''remove'' p e) \<and> e \<noteq> ENOENT"
proof (induction qs arbitrary: w)
  case Nil
  then show ?case by (simp add: stderrs_def)
next
  case (Cons q qs)
  from Cons.prems have "m \<in> set (removeReport E q w) \<or>
      m \<in> set (stderrs (cleanupEvents E (removeStep E q w) qs))"
    by auto
  then show ?case
  proof
    assume "m \<in> set (removeReport E q w)"
    then show ?thesis using removeReport_shape [of m E q w] by auto
  next
    assume "m \<in> set (stderrs (cleanupEvents E (removeStep E q w) qs))"
    then show ?thesis using Cons.IH [of "removeStep E q w"] by auto
  qed
qed

lemma events_stderrs_busy:
  "p \<in> set qs \<Longrightarrow> p \<in> dom (dirs w) \<Longrightarrow> p \<in> busy E \<Longrightarrow>
     MsgCleanupFailed p (PathError ''remove'' p EBUSY) \<in> set (stderrs (cleanupEvents E w qs))"
proof (induction qs arbitrary: w)
  case Nil
  then show ?case by simp
next
  case (Cons q qs)
  show ?case
  proof (cases "p = q")
    case True
    then show ?thesis using Cons.prems by (simp add: removeReport_def stderrs_def)
  next
    case False
    have "p \<in> dom (dirs (removeStep E q w))"
      using False Cons.prems by (simp add: removeStep_dirs domIff)
    with False Cons.prems Cons.IH [of "removeStep E q w"] show ?thesis by simp
  qed
qed

lemma events_absent:
  "\<forall>p \<in> set qs. p \<notin> dom (dirs w) \<and> p \<notin> dom (files w) \<Longrightarrow>
     foldl (\<lambda>v p. removeStep E p v) w qs = w\<lparr>trace := trace w @ map EvRemove qs\<rparr>"
proof (induction qs arbitrary: w)
  case Nil
  show ?case by simp
next
  case (Cons q qs)
  have q: "removeStep E q w = w\<lparr>trace := trace w @ [EvRemove q]\<rparr>"
    using Cons.prems
    by (simp add: removeStep_def osRemove_def emit_def eprint_def Let_def IsNotExist_def)
  show ?case
    using Cons.prems Cons.IH [of "w\<lparr>trace := trace w @ [EvRemove q]\<rparr>"] by (simp add: q)
qed

lemmas path_eval = Join_def Clean_def cleanElem_def

text \<open>
  C7. \<^verbatim>\<open>cleanupHierarchy\<close> has no error result. It calls \<^verbatim>\<open>os.Remove\<close> once for the leaf directory
  of every subsystem that has a mount point, in the order of the parameter set and whatever
  the earlier removals returned; only those directories can disappear, and nothing below
  them is visited. A removal that fails because the directory does not exist leaves no
  message; every message on the error stream reports a removal that failed for another
  reason, and each directory the kernel refuses to remove is reported. When none of the
  directories exists the call changes nothing but the trace, and running the teardown a
  second time leaves directories and files as the first run left them.
\<close>

theorem cleanupHierarchy_best_effort:
  "(let w' = cleanupHierarchy E h ps w; qs = hierarchyPaths E h ps in
      removals (since w w') = qs
    \<and> dirs w' = (\<lambda>p. if p \<in> set qs \<and> p \<notin> busy E then None else dirs w p)
    \<and> (\<forall>m \<in> set (stderrs (since w w')).
          \<exists>p \<in> set qs. \<exists>e. m = MsgCleanupFailed p (PathError ''remove'' p e) \<and> e \<noteq> ENOENT)
    \<and> (\<forall>p \<in> set qs. p \<in> dom (dirs w) \<and> p \<in> busy E \<longrightarrow>
          MsgCleanupFailed p (PathError ''remove'' p EBUSY) \<in> set (stderrs (since w w')))
    \<and> ((\<forall>p \<in> set qs. p \<notin> dom (dirs w) \<and> p \<notin> dom (files w)) \<longrightarrow>
          w' = w\<lparr>trace := trace w @ map EvRemove qs\<rparr>)
    \<and> dirs (cleanupHierarchy E h ps w') = dirs w'
    \<and> files (cleanupHierarchy E h ps w') = files w')"
proof -
  define qs where "qs = hierarchyPaths E h ps"
  define w' where "w' = foldl (\<lambda>v p. removeStep E p v) w qs"
  have w': "cleanupHierarchy E h ps w = w'"
    by (simp add: cleanup_fold w'_def qs_def)
  have sinceX: "since w w' = cleanupEvents E w qs"
    by (simp add: w'_def fold_trace since_def)
  have c1: "removals (since w w') = qs"
    by (simp add: sinceX events_removals)
  have c2: "dirs w' = (\<lambda>p. if p \<in> set qs \<and> p \<notin> busy E then None else dirs w p)"
    by (simp add: w'_def fold_dirs)
  have c3: "\<forall>m \<in> set (stderrs (since w w')).
          \<exists>p \<in> set qs. \<exists>e. m = MsgCleanupFailed p (PathError ''remove'' p e) \<and> e \<noteq> ENOENT"
    using events_stderrs_shape [of _ E w qs] by (simp add: sinceX)
  have c4: "\<forall>p \<in> set qs. p \<in> dom (dirs w) \<and> p \<in> busy E \<longrightarrow>
          MsgCleanupFailed p (PathError ''remove'' p EBUSY) \<in> set (stderrs (since w w'))"
    using events_stderrs_busy [of _ qs w E] by (simp add: sinceX)
  have c5: "(\<forall>p \<in> set qs. p \<notin> dom (dirs w) \<and> p \<notin> dom (files w)) \<longrightarrow>
          w' = w\<lparr>trace := trace w @ map EvRemove qs\<rparr>"
    using events_absent [of qs w E] by (simp add: w'_def)
  have again: "cleanupHierarchy E h ps w' = foldl (\<lambda>v p. removeStep E p v) w' qs"
    by (simp add: cleanup_fold qs_def)
  have c6: "dirs (cleanupHierarchy E h ps w') = dirs w'"
    by (simp add: again fold_dirs c2 fun_eq_iff)
  have c7: "files (cleanupHierarchy E h ps w') = files w'"
    by (auto simp: again fold_files c2 fun_eq_iff domIff)
  show ?thesis
    unfolding Let_def w' qs_def [symmetric]
    using c1 c2 c3 c4 c5 c6 c7 by blast
qed

theorem cleanupHierarchy_best_effort_witness:
  "hierarchyPaths envA ''h'' paramsA = [''/cg/cpu/h'', ''/cg/mem/h'', ''/cg/blk/h'']
   \<and> ''/cg/mem/h'' \<in> dom (dirs worldB) \<and> ''/cg/mem/h'' \<in> busy envA
   \<and> removals (since worldB (cleanupHierarchy envA ''h'' paramsA worldB))
        = [''/cg/cpu/h'', ''/cg/mem/h'', ''/cg/blk/h'']
   \<and> MsgCleanupFailed ''/cg/mem/h'' (PathError ''remove'' ''/cg/mem/h'' EBUSY)
        \<in> set (stderrs (since worldB (cleanupHierarchy envA ''h'' paramsA worldB)))
   \<and> dirs (cleanupHierarchy envA ''h'' paramsA worldB) ''/cg/cpu/h'' = None
   \<and> dirs (cleanupHierarchy envA ''h'' paramsA worldB) ''/cg/mem/h'' = Some 488"
proof -
  have paths: "hierarchyPaths envA ''h'' paramsA = [''/cg/cpu/h'', ''/cg/mem/h'', ''/cg/blk/h'']"
    by (simp add: envA_def paramsA_def path_eval)
  have pre: "''/cg/mem/h'' \<in> dom (dirs worldB) \<and> ''/cg/mem/h'' \<in> busy envA"
    by (simp add: worldB_def worldA_def envA_def)
  have busyA: "busy envA = {''/cg/mem/h''}"
    by (simp add: envA_def)
  have d: "dirs worldB ''/cg/mem/h'' = Some 488"
    by (simp add: worldB_def worldA_def)
  show ?thesis
    using cleanupHierarchy_best_effort [of envA "''h''" paramsA worldB] pre d
    by (simp add: Let_def paths busyA)
qed

lemma step_refl [simp]: "step P w w"
  by (simp add: step_def newEvents_def)

lemma step_trans: "step P w w1 \<Longrightarrow> step P w1 w2 \<Longrightarrow> step P w w2"
  by (auto simp: step_def newEvents_def)

lemma step_sigOk: "step P w w1 \<Longrightarrow> sigOk P w \<Longrightarrow> sigOk P w1"
  by (auto simp: step_def sigOk_def)

lemma step_since: "step P w w' \<Longrightarrow> trace w' = trace w @ since w w' \<and> list_all P (since w w')"
  by (auto simp: step_def newEvents_def since_def)

lemma step_emit: "P e \<Longrightarrow> step P w (emit e w)"
  by (simp add: step_def newEvents_def emit_def)

lemma step_eprint: "P (EvStderr m) \<Longrightarrow> step P w (eprint m w)"
  by (simp add: eprint_def step_emit)

lemma step_started: "step P w (w\<lparr>childStarted := True\<rparr>)"
  by (simp add: step_def newEvents_def)

lemma cleanupEvents_all:
  "(\<forall>p. P (EvRemove p)) \<Longrightarrow> (\<forall>m. P (EvStderr m)) \<Longrightarrow> list_all P (cleanupEvents E w qs)"
  by (induction qs arbitrary: w) (auto simp: list_all_iff)

lemma cleanup_started [simp]: "childStarted (cleanupHierarchy E h ps w) = childStarted w"
  by (simp add: cleanup_fold fold_rest)

lemma step_cleanup:
  "(\<forall>p. P (EvRemove p)) \<Longrightarrow> (\<forall>m. P (EvStderr m)) \<Longrightarrow> step P w (cleanupHierarchy E h ps w)"
  by (simp add: step_def newEvents_def cleanup_fold fold_trace fold_rest cleanupEvents_all)

lemma deliver_quiet [simp]: "sigAfter w = None \<Longrightarrow> deliver E w = w"
  by (simp add: deliver_def split: option.splits)

lemma step_deliver: "sigOk P w \<Longrightarrow> step P w (deliver E w)"
proof -
  assume ok: "sigOk P w"
  show ?thesis
  proof (cases "sigHandler w")
    case None
    then show ?thesis by (simp add: deliver_def)
  next
    case (Some hp)
    obtain h ps where hp: "hp = (h, ps)" by (cases hp)
    show ?thesis
    proof (cases "sigAfter w")
      case None
      then show ?thesis by simp
    next
      case (Some n)
      note n = this
      show ?thesis
      proof (cases n)
        case 0
        define w1 where "w1 = emit EvSignal (w\<lparr>sigHandler := None, sigAfter := None\<rparr>)"
        have s1: "step P w w1"
          using ok by (simp add: w1_def step_def newEvents_def emit_def sigOk_def)
        have d: "deliver E w = (if \<not> childStarted w1 then cleanupHierarchy E h ps w1 else w1)"
          using \<open>sigHandler w = Some hp\<close> hp n 0 by (simp add: deliver_def w1_def Let_def)
        show ?thesis
        proof (cases "childStarted w1")
          case True
          with d s1 show ?thesis by simp
        next
          case False
          then have "\<not> childStarted w" by (simp add: w1_def emit_def)
          with ok have "(\<forall>p. P (EvRemove p)) \<and> (\<forall>m. P (EvStderr m))"
            by (simp add: sigOk_def)
          then have "step P w1 (cleanupHierarchy E h ps w1)"
            by (simp add: step_cleanup)
          with s1 d False show ?thesis
            using step_trans by simp
        qed
      next
        case (Suc k)
        then show ?thesis
          using \<open>sigHandler w = Some hp\<close> hp n
          by (simp add: deliver_def step_def newEvents_def)
      qed
    qed
  qed
qed

lemma step_deliver_emit: "sigOk P w \<Longrightarrow> P e \<Longrightarrow> step P w (emit e (deliver E w))"
  using step_trans [OF step_deliver step_emit] by blast

lemma step_frame:
  "step P w w1 \<Longrightarrow> trace w2 = trace w1 \<Longrightarrow> childStarted w2 = childStarted w1 \<Longrightarrow> step P w w2"
  by (simp add: step_def newEvents_def)

lemma step_osMkdir:
  "sigOk P w \<Longrightarrow> P (EvMkdir p m) \<Longrightarrow> step P w (snd (osMkdir E p m w))"
  by (auto simp: osMkdir_def Let_def intro: step_deliver_emit step_frame [OF step_deliver_emit])

lemma step_ReadFile:
  "sigOk P w \<Longrightarrow> (\<forall>x. P (EvReadFile p x)) \<Longrightarrow> step P w (snd (ReadFile E p w))"
  by (auto simp: ReadFile_def Let_def split: option.splits intro: step_deliver_emit)

lemma step_WriteFile:
  "sigOk P w \<Longrightarrow> P (EvWriteFile p buf) \<Longrightarrow> step P w (snd (WriteFile E p buf w))"
  by (auto simp: WriteFile_def Let_def intro: step_deliver_emit step_frame [OF step_deliver_emit])

lemma step_osReadlink:
  "sigOk P w \<Longrightarrow> P (EvReadlink p) \<Longrightarrow> step P w (snd (osReadlink E p w))"
  by (auto simp: osReadlink_def Let_def split: sum.splits intro: step_deliver_emit)

lemma step_cmdStart:
  "sigOk P w \<Longrightarrow> P (EvStart p a) \<Longrightarrow> step P w (snd (cmdStart E p a w))"
  by (auto simp: cmdStart_def Let_def split: option.splits intro: step_deliver_emit)

lemma step_cmdWait:
  "sigOk P w \<Longrightarrow> P EvWait \<Longrightarrow> step P w (snd (cmdWait E w))"
  by (auto simp: cmdWait_def Let_def split: sum.splits intro: step_deliver_emit)

lemma step_readProcNames:
  "sigOk P w \<Longrightarrow> P (EvReaddir ''/proc'') \<Longrightarrow> step P w (snd (readProcNames E w))"
  by (auto simp: readProcNames_def Let_def split: sum.splits intro: step_deliver_emit)

lemma step_sysKill:
  "sigOk P w \<Longrightarrow> P (EvKill pid) \<Longrightarrow> step P w (snd (sysKill E pid w))"
  by (auto simp: sysKill_def Let_def intro: step_frame [OF step_deliver_emit])

lemma step_timeSleep:
  "sigOk P w \<Longrightarrow> P EvSleep \<Longrightarrow> step P w (timeSleep E w)"
  by (auto simp: timeSleep_def intro: step_deliver_emit)

lemma step_LookPath:
  "sigOk P w \<Longrightarrow> P (EvLookPath f) \<Longrightarrow> step P w (snd (LookPath E f w))"
  by (auto simp: LookPath_def Let_def split: option.splits intro: step_deliver_emit)

lemma step_sysExec:
  "sigOk P w \<Longrightarrow> P (EvExec b a) \<Longrightarrow> step P w (snd (sysExec E b a w))"
  by (auto simp: sysExec_def Let_def split: option.splits intro: step_deliver_emit)

lemma step_copyMandatory:
  "sigOk P w \<Longrightarrow> (\<forall>p x. P (EvReadFile p x)) \<Longrightarrow> (\<forall>p b. P (EvWriteFile p b)) \<Longrightarrow>
     step P w (snd (copyMandatory E hirPath subsys mand w))"
proof (induction mand arbitrary: w)
  case Nil
  show ?case by simp
next
  case (Cons param rest)
  let ?pp = "Join [Dir hirPath, subsys @ ''.'' @ param]"
  let ?cp = "Join [hirPath, subsys @ ''.'' @ param]"
  obtain r w1 where r: "ReadFile E ?pp w = (r, w1)" by (cases "ReadFile E ?pp w")
  have s1: "step P w w1"
    using step_ReadFile [of P w ?pp E] Cons.prems r by simp
  show ?case
  proof (cases r)
    case (Inl err)
    with r s1 show ?thesis by (simp add: Let_def)
  next
    case (Inr buf)
    obtain r2 w2 where r2: "WriteFile E ?cp buf w1 = (r2, w2)" by (cases "WriteFile E ?cp buf w1")
    have ok1: "sigOk P w1" using s1 Cons.prems(1) by (rule step_sigOk)
    have s2: "step P w1 w2"
      using step_WriteFile [of P w1 ?cp buf E] ok1 Cons.prems r2 by simp
    have s12: "step P w w2" using s1 s2 by (rule step_trans)
    show ?thesis
    proof (cases r2)
      case None
      have "step P w2 (snd (copyMandatory E hirPath subsys rest w2))"
        using Cons.IH [of w2] step_sigOk [OF s12 Cons.prems(1)] Cons.prems by simp
      with s12 have "step P w (snd (copyMandatory E hirPath subsys rest w2))"
        by (rule step_trans)
      with r Inr r2 None show ?thesis
        by (simp add: Let_def)
    next
      case (Some err)
      with r Inr r2 s12 show ?thesis
        by (simp add: Let_def)
    qed
  qed
qed

lemma step_writeValues:
  "sigOk P w \<Longrightarrow> (\<forall>p b. P (EvWriteFile p b)) \<Longrightarrow>
     step P w (snd (writeValues E hirPath subsys vs w))"
proof (induction vs arbitrary: w)
  case Nil
  show ?case by simp
next
  case (Cons a rest)
  obtain param val where a: "a = (param, val)" by (cases a)
  let ?cp = "Join [hirPath, subsys @ ''.'' @ param]"
  obtain r w1 where r: "WriteFile E ?cp val w = (r, w1)" by (cases "WriteFile E ?cp val w")
  have s1: "step P w w1"
    using step_WriteFile [of P w ?cp val E] Cons.prems r by simp
  show ?case
  proof (cases r)
    case None
    have "step P w1 (snd (writeValues E hirPath subsys rest w1))"
      using Cons.IH [of w1] step_sigOk [OF s1 Cons.prems(1)] Cons.prems by simp
    with s1 have "step P w (snd (writeValues E hirPath subsys rest w1))"
      by (rule step_trans)
    with r None a show ?thesis by (simp add: Let_def)
  next
    case (Some err)
    with r a s1 show ?thesis by (simp add: Let_def)
  qed
qed

lemma step_setupSubsys:
  assumes ok: "sigOk P w"
    and rd: "\<forall>p x. P (EvReadFile p x)"
    and wr: "\<forall>p b. P (EvWriteFile p b)"
    and mk: "P (EvMkdir hirPath 488)"
  shows "step P w (snd (setupSubsys E hirPath subsys vs w))"
proof -
  obtain r w1 where r: "osMkdir E hirPath 488 w = (r, w1)" by (cases "osMkdir E hirPath 488 w")
  have s1: "step P w w1"
    using step_osMkdir [of P w hirPath 488 E] ok mk r by simp
  have ok1: "sigOk P w1" using s1 ok by (rule step_sigOk)
  show ?thesis
  proof (cases r)
    case (Some err)
    with r s1 show ?thesis by (simp add: setupSubsys_def)
  next
    case None
    define c where "c = (case mandatoryParameters subsys of
                   None \<Rightarrow> (None, w1)
                 | Some mandParams \<Rightarrow> copyMandatory E hirPath subsys mandParams w1)"
    obtain r2 w2 where r2: "c = (r2, w2)" by (cases c)
    have s2: "step P w1 w2"
      using step_copyMandatory [of P w1 E hirPath subsys] ok1 rd wr r2
      by (auto simp: c_def split: option.splits) (metis snd_conv)
    have s12: "step P w w2" using s1 s2 by (rule step_trans)
    have s3: "step P w2 (snd (writeValues E hirPath subsys vs w2))"
      using step_writeValues [of P w2 E hirPath subsys vs] step_sigOk [OF s12 ok] wr by simp
    have res: "setupSubsys E hirPath subsys vs w =
        (case r2 of Some err \<Rightarrow> (Some err, w2) | None \<Rightarrow> writeValues E hirPath subsys vs w2)"
      using r None r2 by (simp add: setupSubsys_def c_def [symmetric] split: option.splits)
    show ?thesis
      using s12 step_trans [OF s12 s3] by (simp add: res split: option.splits)
  qed
qed

lemma step_setupLoop:
  assumes rd: "\<forall>p x. P (EvReadFile p x)"
    and wr: "\<forall>p b. P (EvWriteFile p b)"
  shows "sigOk P w \<Longrightarrow> \<forall>p \<in> set (hierarchyPaths E h ps). P (EvMkdir p 488) \<Longrightarrow>
     step P w (snd (setupLoop E h ps w))"
proof (induction ps arbitrary: w)
  case Nil
  show ?case by simp
next
  case (Cons a ps)
  obtain s vs where a: "a = (s, vs)" by (cases a)
  show ?case
  proof (cases "subsysMountPoints E s")
    case None
    then show ?thesis by (simp add: a)
  next
    case (Some m)
    show ?thesis
    proof (cases "m = []")
      case True
      with Some show ?thesis by (simp add: a)
    next
      case False
      obtain r w1 where r: "setupSubsys E (Join [m, h]) s vs w = (r, w1)"
        by (cases "setupSubsys E (Join [m, h]) s vs w")
      have mk: "P (EvMkdir (Join [m, h]) 488)"
        using Cons.prems(2) Some False by (simp add: a)
      have s1: "step P w w1"
        using step_setupSubsys [OF Cons.prems(1) rd wr mk, of E s vs] r by simp
      have rest: "\<forall>p \<in> set (hierarchyPaths E h ps). P (EvMkdir p 488)"
        using Cons.prems(2) Some False by (simp add: a)
      have s2: "step P w1 (snd (setupLoop E h ps w1))"
        using Cons.IH [OF step_sigOk [OF s1 Cons.prems(1)] rest] .
      show ?thesis
        using Some False r s1 step_trans [OF s1 s2]
        by (simp add: a split: option.splits)
    qed
  qed
qed

lemma step_setupHierarchy:
  assumes rd: "\<forall>p x. P (EvReadFile p x)"
    and wr: "\<forall>p b. P (EvWriteFile p b)"
    and rm: "\<forall>p. P (EvRemove p)"
    and er: "\<forall>m. P (EvStderr m)"
    and sg: "P EvSignal"
    and mk: "\<forall>p \<in> set (hierarchyPaths E h ps). P (EvMkdir p 488)"
  shows "step P w (snd (setupHierarchy E h ps w))"
proof -
  define w0 where "w0 = setupSignalHandler h ps w"
  have s0: "step P w w0"
    by (simp add: w0_def setupSignalHandler_def step_def newEvents_def)
  have ok0: "sigOk P w0"
    using rm er sg by (simp add: sigOk_def)
  obtain r w1 where r: "setupLoop E h ps w0 = (r, w1)" by (cases "setupLoop E h ps w0")
  have s1: "step P w0 w1"
    using step_setupLoop [OF rd wr ok0 mk] r by simp
  have s01: "step P w w1" using s0 s1 by (rule step_trans)
  have s2: "step P w1 (cleanupHierarchy E h ps w1)"
    using rm er by (simp add: step_cleanup)
  show ?thesis
    using r s01 step_trans [OF s01 s2]
    by (simp add: setupHierarchy_def w0_def [symmetric] split: option.splits)
qed

lemma mkdirs_setupEvent:
  "list_all (setupEvent S) X \<Longrightarrow> \<forall>(p, m) \<in> set (mkdirs X). m = 488 \<and> p \<in> S"
  by (induction X) (auto simp: mkdirs_def setupEvent_def split: event.splits)

lemma mode_488:
  "grants 488 who perm \<longleftrightarrow> who = Owner \<or> (who = Group \<and> perm \<noteq> Write)"
  by (cases who; cases perm) (simp_all add: grants_def permBit_def)

lemmas run_eval = setupHierarchy_def setupSignalHandler_def setupSubsys_def
  osMkdir_def WriteFile_def ReadFile_def osRemove_def emit_def eprint_def Let_def
  mandatoryParameters_def IsNotExist_def domIff since_def

lemma dir_cpu_h: "Dir ''/cg/cpu/h'' = ''/cg/cpu''"
  by (simp add: Dir_def path_eval)

lemma dir_cpu_h_shares: "Dir ''/cg/cpu/h/cpu.shares'' = ''/cg/cpu/h''"
  by (simp add: Dir_def path_eval)

text \<open>
  C9 (as amended). Every \<^verbatim>\<open>os.Mkdir\<close> that \<^verbatim>\<open>setupHierarchy\<close> issues, with or without a
  signal arriving meanwhile, is for the leaf directory of a mounted subsystem of the
  parameter set and asks for mode 0750 (488): read, write and execute for the owner, read
  and execute but not write for the group, nothing for anybody else. (The mode is the
  one requested, before the process's umask.)
\<close>

theorem setupHierarchy_mkdir_mode:
  "(\<forall>(p, m) \<in> set (mkdirs (since w (snd (setupHierarchy E h ps w)))).
       m = 488 \<and> p \<in> set (hierarchyPaths E h ps)
       \<and> (\<forall>who perm. grants m who perm \<longleftrightarrow> who = Owner \<or> (who = Group \<and> perm \<noteq> Write)))"
proof -
  have "step (setupEvent (set (hierarchyPaths E h ps))) w (snd (setupHierarchy E h ps w))"
    by (rule step_setupHierarchy) (simp_all add: setupEvent_def)
  then have "list_all (setupEvent (set (hierarchyPaths E h ps))) (since w (snd (setupHierarchy E h ps w)))"
    using step_since by blast
  then show ?thesis
    using mkdirs_setupEvent [of "set (hierarchyPaths E h ps)"] mode_488 by fastforce
qed

theorem setupHierarchy_mkdir_mode_witness:
  "mkdirs (since worldA (snd (setupHierarchy envA ''h'' [(''cpu'', [(''shares'', ''1'')])] worldA)))
     = [(''/cg/cpu/h'', 488)]
   \<and> grants 488 Owner Write \<and> grants 488 Group Read \<and> \<not> grants 488 Other Read"
proof -
  have run: "mkdirs (since worldA (snd (setupHierarchy envA ''h'' [(''cpu'', [(''shares'', ''1'')])] worldA)))
     = [(''/cg/cpu/h'', 488)]"
    by (simp add: run_eval envA_def worldA_def path_eval dir_cpu_h dir_cpu_h_shares mkdirs_def)
  show ?thesis
    using setupHierarchy_mkdir_mode [of worldA envA "''h''" "[(''cpu'', [(''shares'', ''1'')])]"]
    by (simp add: run)
qed

theorem setupHierarchy_mkdir_mode_counterexample:
  "\<not> (\<forall>(p, m) \<in> set (mkdirs (since worldA
          (snd (setupHierarchy envA ''h'' [(''cpu'', [(''shares'', ''1'')])] worldA)))).
        \<forall>who perm. grants m who perm \<longleftrightarrow> who \<noteq> Other)"
proof -
  have run: "mkdirs (since worldA (snd (setupHierarchy envA ''h'' [(''cpu'', [(''shares'', ''1'')])] worldA)))
     = [(''/cg/cpu/h'', 488)]"
    by (simp add: run_eval envA_def worldA_def path_eval dir_cpu_h dir_cpu_h_shares mkdirs_def)
  have "\<not> grants 488 Group Write"
    by (simp add: grants_def permBit_def)
  then show ?thesis
    by (auto simp: run)
qed

lemma setupLoop_append_unmounted:
  "\<forall>(s', vs') \<in> set pre. mounted E s' \<Longrightarrow> \<not> mounted E s \<Longrightarrow>
     setupLoop E h (pre @ (s, vs) # post) w =
       (case setupLoop E h pre w of
          (Some err, w1) \<Rightarrow> (Some err, w1)
        | (None, w1) \<Rightarrow> (Some (NotMounted s), w1))"
proof (induction pre arbitrary: w)
  case Nil
  then show ?case by (simp add: mounted_def split: option.splits)
next
  case (Cons a pre)
  obtain s' vs' where a: "a = (s', vs')" by (cases a)
  from Cons.prems a obtain m where m: "subsysMountPoints E s' = Some m" "m \<noteq> []"
    by (auto simp: mounted_def split: option.splits)
  have rest: "\<forall>(s', vs') \<in> set pre. mounted E s'"
    using Cons.prems by simp
  show ?case
    using m Cons.IH [OF rest Cons.prems(2)]
    by (simp add: a split: prod.splits option.splits)
qed

text \<open>
  C2 (as amended). When the parameter set holds a subsystem without a mount point,
  \<^verbatim>\<open>setupHierarchy\<close> fails. Its error is the first failure in visiting order: the error
  of the file-system operation that failed while a subsystem visited before the first
  unmounted one was set up, and the subsystem-not-mounted error for that subsystem when
  all of them were set up. On return no leaf directory of any mounted subsystem of the
  set remains, those visited before the failing one included, except the directories the
  kernel refuses to remove.
\<close>

theorem setupHierarchy_unmounted:
  assumes "ps = pre @ (s, vs) # post"
    and "\<forall>(s', vs') \<in> set pre. mounted E s'"
    and "\<not> mounted E s"
  shows "fst (setupHierarchy E h ps w) \<noteq> None
       \<and> fst (setupHierarchy E h ps w) =
           (case fst (setupLoop E h pre (setupSignalHandler h ps w)) of
              Some err \<Rightarrow> Some err
            | None \<Rightarrow> Some (NotMounted s))
       \<and> (\<forall>p \<in> set (hierarchyPaths E h ps).
             p \<notin> busy E \<longrightarrow> p \<notin> dom (dirs (snd (setupHierarchy E h ps w))))"
proof -
  define w0 where "w0 = setupSignalHandler h ps w"
  obtain r0 w1 where pre: "setupLoop E h pre w0 = (r0, w1)"
    by (cases "setupLoop E h pre w0")
  have loop: "setupLoop E h ps w0 =
      (case r0 of Some err \<Rightarrow> (Some err, w1) | None \<Rightarrow> (Some (NotMounted s), w1))"
    using setupLoop_append_unmounted [OF assms(2,3), of h vs post w0] pre assms(1)
    by (simp split: option.splits)
  have res: "setupHierarchy E h ps w =
      ((case r0 of Some err \<Rightarrow> Some err | None \<Rightarrow> Some (NotMounted s)),
       cleanupHierarchy E h ps w1)"
    by (simp add: setupHierarchy_def w0_def [symmetric] loop split: option.splits)
  have d: "\<forall>p \<in> set (hierarchyPaths E h ps).
             p \<notin> busy E \<longrightarrow> p \<notin> dom (dirs (cleanupHierarchy E h ps w1))"
    by (simp add: cleanup_fold fold_dirs domIff)
  show ?thesis
    using d by (simp add: res w0_def [symmetric] pre split: option.splits)
qed

theorem setupHierarchy_unmounted_witness:
  "paramsA = [(''cpu'', [(''shares'', ''1'')])] @ (''bogus'', []) # [(''memory'', []), (''devices'', []), (''blkio'', [])]
   \<and> mounted envA ''cpu'' \<and> \<not> mounted envA ''bogus''
   \<and> fst (setupHierarchy envA ''h'' paramsA worldA) = Some (NotMounted ''bogus'')
   \<and> ''/cg/cpu/h'' \<in> set (hierarchyPaths envA ''h'' paramsA) \<and> ''/cg/cpu/h'' \<notin> busy envA
   \<and> ''/cg/cpu/h'' \<notin> dom (dirs (snd (setupHierarchy envA ''h'' paramsA worldA)))"
proof -
  have split: "paramsA = [(''cpu'', [(''shares'', ''1'')])] @ (''bogus'', []) # [(''memory'', []), (''devices'', []), (''blkio'', [])]"
    by (simp add: paramsA_def)
  have m1: "\<forall>(s', vs') \<in> set [(''cpu'', [(''shares'', ''1'')])]. mounted envA s'"
    by (simp add: mounted_def envA_def)
  have m2: "\<not> mounted envA ''bogus''"
    by (simp add: mounted_def envA_def)
  have pre: "fst (setupLoop envA ''h'' [(''cpu'', [(''shares'', ''1'')])] (setupSignalHandler ''h'' paramsA worldA)) = None"
    by (simp add: run_eval envA_def worldA_def path_eval dir_cpu_h dir_cpu_h_shares)
  have paths: "hierarchyPaths envA ''h'' paramsA = [''/cg/cpu/h'', ''/cg/mem/h'', ''/cg/blk/h'']"
    by (simp add: envA_def paramsA_def path_eval)
  have nb: "''/cg/cpu/h'' \<notin> busy envA"
    by (simp add: envA_def)
  note t = setupHierarchy_unmounted [OF split m1 m2, of "''h''" worldA]
  have e: "fst (setupHierarchy envA ''h'' paramsA worldA) = Some (NotMounted ''bogus'')"
    using t unfolding pre by simp
  have "\<forall>p \<in> set (hierarchyPaths envA ''h'' paramsA).
      p \<notin> busy envA \<longrightarrow> p \<notin> dom (dirs (snd (setupHierarchy envA ''h'' paramsA worldA)))"
    using t by blast
  then have d: "''/cg/cpu/h'' \<notin> dom (dirs (snd (setupHierarchy envA ''h'' paramsA worldA)))"
    using nb by (simp add: paths)
  show ?thesis
    using split m1 m2 nb e d by (simp add: paths)
qed

theorem setupHierarchy_unmounted_counterexample:
  "(''bogus'', [(''x'', ''1'')]) \<in> set paramsC \<and> subsysMountPoints envC ''bogus'' = None
   \<and> fst (setupHierarchy envC ''h'' paramsC worldC) = Some (PathError ''mkdir'' ''/cg/cc/h'' EEXIST)
   \<and> (\<nexists>subsys. fst (setupHierarchy envC ''h'' paramsC worldC) = Some (NotMounted subsys))"
  by (simp add: run_eval envC_def envA_def paramsC_def worldC_def worldA_def path_eval Dir_def deliver_def)

lemma applyWrites_append: "applyWrites fs (a @ b) = applyWrites (applyWrites fs a) b"
  by (induction a arbitrary: fs) simp_all

lemma readsCurrent_append:
  "readsCurrent fs (a @ b) = (readsCurrent fs a \<and> readsCurrent (applyWrites fs a) b)"
  by (induction a arbitrary: fs) auto

lemma quietRun_nil: "sigAfter w = None \<Longrightarrow> quietRun w w []"
  by (simp add: quietRun_def)

lemma quietRun_trans:
  "quietRun w w1 X \<Longrightarrow> quietRun w1 w2 Y \<Longrightarrow> quietRun w w2 (X @ Y)"
  by (simp add: quietRun_def applyWrites_append readsCurrent_append)

lemma quiet_ReadFile:
  "sigAfter w = None \<Longrightarrow> ReadFile E p w = (Inr buf, w') \<Longrightarrow>
     quietRun w w' [EvReadFile p (Some buf)]"
  by (auto simp: ReadFile_def quietRun_def emit_def split: option.splits)

lemma quiet_WriteFile:
  "sigAfter w = None \<Longrightarrow> WriteFile E p buf w = (None, w') \<Longrightarrow>
     quietRun w w' [EvWriteFile p buf]"
  by (auto simp: WriteFile_def quietRun_def emit_def Let_def split: if_splits)

lemma quiet_osMkdir:
  "sigAfter w = None \<Longrightarrow> osMkdir E p m w = (None, w') \<Longrightarrow>
     quietRun w w' [EvMkdir p m]"
  by (auto simp: osMkdir_def quietRun_def emit_def Let_def split: if_splits)

lemma quiet_copyMandatory:
  "sigAfter w = None \<Longrightarrow> copyMandatory E hirPath subsys mand w = (None, w') \<Longrightarrow>
     \<exists>bufs. length bufs = length mand \<and> quietRun w w' (inheritEvents hirPath subsys mand bufs)"
proof (induction mand arbitrary: w)
  case Nil
  then have "quietRun w w' (inheritEvents hirPath subsys [] [])"
    by (simp add: quietRun_nil)
  then show ?case by blast
next
  case (Cons param rest)
  let ?pp = "Join [Dir hirPath, subsys @ ''.'' @ param]"
  let ?cp = "Join [hirPath, subsys @ ''.'' @ param]"
  obtain r w1 where r: "ReadFile E ?pp w = (r, w1)" by (cases "ReadFile E ?pp w")
  from Cons.prems(2) r obtain buf where buf: "r = Inr buf"
    by (cases r) (simp_all add: Let_def)
  obtain r2 w2 where r2: "WriteFile E ?cp buf w1 = (r2, w2)" by (cases "WriteFile E ?cp buf w1")
  from Cons.prems(2) r buf r2 have none: "r2 = None"
    by (cases r2) (simp_all add: Let_def)
  have rest: "copyMandatory E hirPath subsys rest w2 = (None, w')"
    using Cons.prems(2) r buf r2 none by (simp add: Let_def)
  have q1: "quietRun w w1 [EvReadFile ?pp (Some buf)]"
    using quiet_ReadFile [OF Cons.prems(1)] r buf by simp
  have q2: "quietRun w1 w2 [EvWriteFile ?cp buf]"
    using quiet_WriteFile [of w1 E ?cp buf w2] q1 r2 none by (simp add: quietRun_def)
  have s2: "sigAfter w2 = None" using q2 by (simp add: quietRun_def)
  from Cons.IH [OF s2 rest] obtain bufs where
    bufs: "length bufs = length rest" "quietRun w2 w' (inheritEvents hirPath subsys rest bufs)"
    by blast
  have "quietRun w w' ([EvReadFile ?pp (Some buf)] @ [EvWriteFile ?cp buf] @ inheritEvents hirPath subsys rest bufs)"
    using quietRun_trans [OF q1 quietRun_trans [OF q2 bufs(2)]] .
  then have "quietRun w w' (inheritEvents hirPath subsys (param # rest) (buf # bufs))"
    by simp
  with bufs(1) show ?case
    by (metis length_Cons)
qed

lemma quiet_writeValues:
  "sigAfter w = None \<Longrightarrow> writeValues E hirPath subsys vs w = (None, w') \<Longrightarrow>
     quietRun w w' (valueEvents hirPath subsys vs)"
proof (induction vs arbitrary: w)
  case Nil
  then show ?case by (simp add: quietRun_nil valueEvents_def)
next
  case (Cons a rest)
  obtain param val where a: "a = (param, val)" by (cases a)
  let ?cp = "Join [hirPath, subsys @ ''.'' @ param]"
  obtain r w1 where r: "WriteFile E ?cp val w = (r, w1)" by (cases "WriteFile E ?cp val w")
  from Cons.prems(2) r a have none: "r = None"
    by (cases r) (simp_all add: Let_def)
  have rest: "writeValues E hirPath subsys rest w1 = (None, w')"
    using Cons.prems(2) r a none by (simp add: Let_def)
  have q1: "quietRun w w1 [EvWriteFile ?cp val]"
    using quiet_WriteFile [OF Cons.prems(1)] r none by simp
  have s1: "sigAfter w1 = None" using q1 by (simp add: quietRun_def)
  have "quietRun w w' ([EvWriteFile ?cp val] @ valueEvents hirPath subsys rest)"
    using quietRun_trans [OF q1 Cons.IH [OF s1 rest]] .
  then show ?case by (simp add: valueEvents_def a)
qed

lemma quiet_setupSubsys:
  assumes q: "sigAfter w = None" and ok: "setupSubsys E hirPath subsys vs w = (None, w')"
  shows "\<exists>bufs. length bufs = length (mandOf subsys) \<and>
     quietRun w w' (EvMkdir hirPath 488 # inheritEvents hirPath subsys (mandOf subsys) bufs
        @ valueEvents hirPath subsys vs)"
proof -
  obtain r w1 where r: "osMkdir E hirPath 488 w = (r, w1)" by (cases "osMkdir E hirPath 488 w")
  from ok r have none: "r = None"
    by (cases r) (simp_all add: setupSubsys_def)
  have q1: "quietRun w w1 [EvMkdir hirPath 488]"
    using quiet_osMkdir [OF q] r none by simp
  have s1: "sigAfter w1 = None" using q1 by (simp add: quietRun_def)
  define c where "c = (case mandatoryParameters subsys of
                   None \<Rightarrow> (None, w1)
                 | Some mandParams \<Rightarrow> copyMandatory E hirPath subsys mandParams w1)"
  obtain r2 w2 where r2: "c = (r2, w2)" by (cases c)
  have res: "setupSubsys E hirPath subsys vs w =
        (case r2 of Some err \<Rightarrow> (Some err, w2) | None \<Rightarrow> writeValues E hirPath subsys vs w2)"
    using r none r2 by (simp add: setupSubsys_def c_def [symmetric] split: option.splits)
  from ok res have none2: "r2 = None" by (cases r2) simp_all
  have wv: "writeValues E hirPath subsys vs w2 = (None, w')"
    using ok res none2 by simp
  have "\<exists>bufs. length bufs = length (mandOf subsys) \<and>
      quietRun w1 w2 (inheritEvents hirPath subsys (mandOf subsys) bufs)"
  proof (cases "mandatoryParameters subsys")
    case None
    then have "w2 = w1" using r2 by (simp add: c_def)
    then have "quietRun w1 w2 (inheritEvents hirPath subsys (mandOf subsys) [])"
      using s1 None by (simp add: mandOf_def quietRun_nil)
    with None show ?thesis by (auto simp: mandOf_def)
  next
    case (Some mand)
    then have "copyMandatory E hirPath subsys mand w1 = (None, w2)"
      using r2 none2 by (simp add: c_def)
    from quiet_copyMandatory [OF s1 this] Some show ?thesis
      by (simp add: mandOf_def)
  qed
  then obtain bufs where bufs: "length bufs = length (mandOf subsys)"
      "quietRun w1 w2 (inheritEvents hirPath subsys (mandOf subsys) bufs)"
    by blast
  have s2: "sigAfter w2 = None" using bufs(2) by (simp add: quietRun_def)
  have "quietRun w w' ([EvMkdir hirPath 488] @ inheritEvents hirPath subsys (mandOf subsys) bufs
        @ valueEvents hirPath subsys vs)"
    using quietRun_trans [OF q1 quietRun_trans [OF bufs(2) quiet_writeValues [OF s2 wv]]] .
  with bufs(1) show ?thesis by auto
qed

lemma quiet_setupLoop:
  "sigAfter w = None \<Longrightarrow> setupLoop E h ps w = (None, w') \<Longrightarrow>
     \<exists>bufss. list_all2 (\<lambda>sv bufs. length bufs = length (mandOf (fst sv))) ps bufss
        \<and> quietRun w w' (concat (map2 (subsysEvents E h) ps bufss))"
proof (induction ps arbitrary: w)
  case Nil
  then have "quietRun w w' (concat (map2 (subsysEvents E h) [] []))"
    by (simp add: quietRun_nil)
  then show ?case by force
next
  case (Cons a ps)
  obtain s vs where a: "a = (s, vs)" by (cases a)
  from Cons.prems(2) a obtain m where m: "subsysMountPoints E s = Some m" "m \<noteq> []"
    by (auto split: option.splits if_splits)
  obtain r w1 where r: "setupSubsys E (Join [m, h]) s vs w = (r, w1)"
    by (cases "setupSubsys E (Join [m, h]) s vs w")
  from Cons.prems(2) a m r have none: "r = None"
    by (cases r) simp_all
  have rest: "setupLoop E h ps w1 = (None, w')"
    using Cons.prems(2) a m r none by simp
  from quiet_setupSubsys [OF Cons.prems(1)] r none obtain bufs where
    bufs: "length bufs = length (mandOf s)"
      "quietRun w w1 (EvMkdir (Join [m, h]) 488 # inheritEvents (Join [m, h]) s (mandOf s) bufs
        @ valueEvents (Join [m, h]) s vs)"
    by blast
  have s1: "sigAfter w1 = None" using bufs(2) by (simp add: quietRun_def)
  from Cons.IH [OF s1 rest] obtain bufss where
    bufss: "list_all2 (\<lambda>sv bufs. length bufs = length (mandOf (fst sv))) ps bufss"
      "quietRun w1 w' (concat (map2 (subsysEvents E h) ps bufss))"
    by blast
  have ev: "subsysEvents E h a bufs = EvMkdir (Join [m, h]) 488 # inheritEvents (Join [m, h]) s (mandOf s) bufs
        @ valueEvents (Join [m, h]) s vs"
    using m by (simp add: subsysEvents_def a Let_def)
  have "quietRun w w' (concat (map2 (subsysEvents E h) (a # ps) (bufs # bufss)))"
    using quietRun_trans [OF bufs(2) bufss(2)] by (simp add: ev)
  moreover have "list_all2 (\<lambda>sv bufs. length bufs = length (mandOf (fst sv))) (a # ps) (bufs # bufss)"
    using bufs(1) bufss(1) by (simp add: a)
  ultimately show ?case by blast
qed

text \<open>
  C4. When \<^verbatim>\<open>setupHierarchy\<close> succeeds and no signal arrives, its calls are, subsystem
  by subsystem in visiting order: the \<^verbatim>\<open>mkdir\<close> of the leaf directory; for every
  mandatory parameter of the subsystem a read of the parameter's file in the directory
  one path level above the leaf and a write of exactly the content read to the file of
  the same name in the leaf; and only then the writes of the caller's values. Every read
  returned the current content of the file. The table of mandatory parameters has the
  one entry cpuset, with cpus and mems.
\<close>

theorem setupHierarchy_inherits_mandatory:
  assumes "sigAfter w = None" and "setupHierarchy E hirName ps w = (None, w')"
  shows "\<exists>bufss. list_all2 (\<lambda>sv bufs. length bufs = length (mandOf (fst sv))) ps bufss
       \<and> since w w' = concat (map2 (subsysEvents E hirName) ps bufss)
       \<and> readsCurrent (files w) (since w w')
       \<and> mandOf ''cpuset'' = [''cpus'', ''mems'']
       \<and> (\<forall>subsys. subsys \<noteq> ''cpuset'' \<longrightarrow> mandOf subsys = [])"
proof -
  define w0 where "w0 = setupSignalHandler hirName ps w"
  have q0: "sigAfter w0 = None" "trace w0 = trace w" "files w0 = files w"
    using assms(1) by (simp_all add: w0_def setupSignalHandler_def)
  obtain r w1 where r: "setupLoop E hirName ps w0 = (r, w1)"
    by (cases "setupLoop E hirName ps w0")
  from assms(2) r have "r = None \<and> w1 = w'"
    by (cases r) (simp_all add: setupHierarchy_def w0_def [symmetric])
  with r have loop: "setupLoop E hirName ps w0 = (None, w')" by simp
  from quiet_setupLoop [OF q0(1) loop] obtain bufss where
    bufss: "list_all2 (\<lambda>sv bufs. length bufs = length (mandOf (fst sv))) ps bufss"
      "quietRun w0 w' (concat (map2 (subsysEvents E hirName) ps bufss))"
    by blast
  have tr: "since w w' = concat (map2 (subsysEvents E hirName) ps bufss)"
    using bufss(2) q0 by (simp add: quietRun_def since_def)
  have rc: "readsCurrent (files w) (since w w')"
    using bufss(2) q0 by (simp add: quietRun_def tr)
  have tab: "mandOf ''cpuset'' = [''cpus'', ''mems''] \<and> (\<forall>subsys. subsys \<noteq> ''cpuset'' \<longrightarrow> mandOf subsys = [])"
    by (simp add: mandOf_def mandatoryParameters_def)
  show ?thesis
    using bufss(1) tr rc tab by blast
qed

lemma dir_cpuset_h: "Dir ''/cg/cpuset/h'' = ''/cg/cpuset''"
  by (simp add: Dir_def path_eval)

lemma dir_cpuset_h_cpus: "Dir ''/cg/cpuset/h/cpuset.cpus'' = ''/cg/cpuset/h''"
  by (simp add: Dir_def path_eval)

lemma dir_cpuset_h_mems: "Dir ''/cg/cpuset/h/cpuset.mems'' = ''/cg/cpuset/h''"
  by (simp add: Dir_def path_eval)

theorem setupHierarchy_inherits_mandatory_witness:
  "sigAfter worldA = None
   \<and> fst (setupHierarchy envA ''h'' paramsD worldA) = None
   \<and> files worldA ''/cg/cpuset/cpuset.cpus'' = Some ''0-3''
   \<and> files worldA ''/cg/cpuset/cpuset.mems'' = Some ''0''
   \<and> since worldA (snd (setupHierarchy envA ''h'' paramsD worldA)) =
       [EvMkdir ''/cg/cpuset/h'' 488,
        EvReadFile ''/cg/cpuset/cpuset.cpus'' (Some ''0-3''),
        EvWriteFile ''/cg/cpuset/h/cpuset.cpus'' ''0-3'',
        EvReadFile ''/cg/cpuset/cpuset.mems'' (Some ''0''),
        EvWriteFile ''/cg/cpuset/h/cpuset.mems'' ''0'',
        EvWriteFile ''/cg/cpuset/h/cpuset.cpus'' ''0-2'']
   \<and> readsCurrent (files worldA) (since worldA (snd (setupHierarchy envA ''h'' paramsD worldA)))"
proof -
  have q: "sigAfter worldA = None"
    by (simp add: worldA_def)
  have run: "setupHierarchy envA ''h'' paramsD worldA = (None, snd (setupHierarchy envA ''h'' paramsD worldA))"
    by (simp add: run_eval envA_def worldA_def paramsD_def path_eval
        dir_cpuset_h dir_cpuset_h_cpus dir_cpuset_h_mems)
  have tr: "since worldA (snd (setupHierarchy envA ''h'' paramsD worldA)) =
       [EvMkdir ''/cg/cpuset/h'' 488,
        EvReadFile ''/cg/cpuset/cpuset.cpus'' (Some ''0-3''),
        EvWriteFile ''/cg/cpuset/h/cpuset.cpus'' ''0-3'',
        EvReadFile ''/cg/cpuset/cpuset.mems'' (Some ''0''),
        EvWriteFile ''/cg/cpuset/h/cpuset.mems'' ''0'',
        EvWriteFile ''/cg/cpuset/h/cpuset.cpus'' ''0-2'']"
    by (simp add: run_eval envA_def worldA_def paramsD_def path_eval
        dir_cpuset_h dir_cpuset_h_cpus dir_cpuset_h_mems)
  have f: "files worldA ''/cg/cpuset/cpuset.cpus'' = Some ''0-3''
         \<and> files worldA ''/cg/cpuset/cpuset.mems'' = Some ''0''"
    by (simp add: worldA_def)
  from setupHierarchy_inherits_mandatory [OF q run]
  have "readsCurrent (files worldA) (since worldA (snd (setupHierarchy envA ''h'' paramsD worldA)))"
    by blast
  with q run tr f show ?thesis
    by (metis fst_conv)
qed

















lemma setupLoop_ok_tasks:
  "fst (setupLoop E h ps w) = None \<Longrightarrow> \<exists>tasks. getTasksFiles E h ps = Inr tasks"
proof (induction ps arbitrary: w)
  case Nil
  show ?case by simp
next
  case (Cons a ps)
  obtain s vs where a: "a = (s, vs)" by (cases a)
  from Cons.prems a obtain m where m: "subsysMountPoints E s = Some m" "m \<noteq> []"
    by (auto split: option.splits if_splits)
  obtain r w1 where r: "setupSubsys E (Join [m, h]) s vs w = (r, w1)"
    by (cases "setupSubsys E (Join [m, h]) s vs w")
  from Cons.prems a m r have "fst (setupLoop E h ps w1) = None"
    by (cases r) simp_all
  from Cons.IH [OF this] obtain tasks where "getTasksFiles E h ps = Inr tasks" ..
  with a m show ?case by simp
qed

lemma setupHierarchy_ok_tasks:
  "fst (setupHierarchy E h ps w) = None \<Longrightarrow> \<exists>tasks. getTasksFiles E h ps = Inr tasks"
proof -
  assume ok: "fst (setupHierarchy E h ps w) = None"
  obtain r w1 where r: "setupLoop E h ps (setupSignalHandler h ps w) = (r, w1)"
    by (cases "setupLoop E h ps (setupSignalHandler h ps w)")
  from ok r have "r = None"
    by (cases r) (simp_all add: setupHierarchy_def)
  with r setupLoop_ok_tasks [of E h ps "setupSignalHandler h ps w"] show ?thesis by simp
qed

lemma execProgram_code:
  "getTasksFiles E h ps = Inr tasks \<Longrightarrow> selfExe E = Inr exe \<Longrightarrow> startFails E = None \<Longrightarrow>
   waitResult E = Inr st \<Longrightarrow> fst (execProgram E h ps args w) = (ExitStatus st, None)"
  by (simp add: execProgram_def osReadlink_def cmdStart_def cmdWait_def Let_def)

lemma ExitStatus_exited:
  fixes c :: "32 word"
  assumes "c < 256"
  shows "Exited (push_bit 8 c)" and "ExitStatus (push_bit 8 c) = uint c"
proof -
  show e: "Exited (push_bit 8 c)"
    by (simp add: Exited_def take_bit_push_bit)
  have "unat c < 2 ^ 8"
    using assms by (simp add: word_less_nat_alt)
  then have "unat (take_bit 8 c) = unat c"
    by (simp only: unsigned_take_bit_eq take_bit_nat_eq_self)
  then have "take_bit 8 c = c"
    by (simp only: word_unat_eq_iff)
  moreover have "take_bit 8 (drop_bit 8 (push_bit 8 c)) = take_bit 8 c"
    by (rule bit_word_eqI) (auto simp: bit_simps)
  ultimately show "ExitStatus (push_bit 8 c) = uint c"
    using e by (simp add: ExitStatus_def)
qed

lemma ExitStatus_signaled: "Signaled st \<Longrightarrow> ExitStatus st = - 1"
  by (simp add: Signaled_def ExitStatus_def Exited_def)

text \<open>
  C3 (as amended). In launch mode, once the hierarchy is set up and the child is started,
  the tool waits for the child and ends with \<^verbatim>\<open>os.Exit\<close> of the \<^verbatim>\<open>ExitStatus\<close> of the
  child's wait status: for a child that exited with status \<open>c\<close> the tool's exit code is
  \<open>c\<close> (7 yields 7), and for a child terminated by a signal it is -1, which the tool's
  parent sees as 255, whatever the signal was.
\<close>

theorem launch_reports_exit_status:
  assumes "Pid (opts E) = None" and "args \<noteq> []" and "a0 \<noteq> HelperInitProgName"
    and "selfExe E = Inr exe" and "startFails E = None" and "waitResult E = Inr st"
    and "fst (setupHierarchy E (hirNameOf E md5 now ownPid) ps w) = None"
  shows "(\<exists>w'. main E fuel md5 now ownPid (a0 # osRest) ps args w = Some (Exit (ExitStatus st), w'))
       \<and> (\<forall>c. c < 256 \<and> st = push_bit 8 c \<longrightarrow>
             ExitStatus st = uint c \<and> statusSeen (ExitStatus st) = uint c)
       \<and> (Signaled st \<longrightarrow> ExitStatus st = - 1 \<and> statusSeen (ExitStatus st) = 255)"
proof -
  let ?h = "hirNameOf E md5 now ownPid"
  obtain w1 where s: "setupHierarchy E ?h ps w = (None, w1)"
    using assms(7) by (cases "setupHierarchy E ?h ps w") simp
  from setupHierarchy_ok_tasks [OF assms(7)] obtain tasks where t: "getTasksFiles E ?h ps = Inr tasks" ..
  obtain w2 where x: "execProgram E ?h ps args w1 = ((ExitStatus st, None), w2)"
    using execProgram_code [OF t assms(4,5,6), of args w1]
    by (cases "execProgram E ?h ps args w1") simp
  have "initialMain E fuel md5 now ownPid ps args w = Some (ExitStatus st, cleanupHierarchy E ?h ps w2)"
    using s x assms(1,2) by (simp add: initialMain_def hirNameOf_def Let_def)
  then have m: "\<exists>w'. main E fuel md5 now ownPid (a0 # osRest) ps args w = Some (Exit (ExitStatus st), w')"
    using assms(3) by (simp add: main_def)
  have e: "\<forall>c. c < 256 \<and> st = push_bit 8 c \<longrightarrow>
             ExitStatus st = uint c \<and> statusSeen (ExitStatus st) = uint c"
  proof (intro allI impI)
    fix c :: "32 word" assume c: "c < 256 \<and> st = push_bit 8 c"
    then have u: "uint c < 256" by (simp add: word_less_def)
    have "0 \<le> uint c" by simp
    with u have "uint c mod 256 = uint c" by simp
    with c ExitStatus_exited(2) [of c] show "ExitStatus st = uint c \<and> statusSeen (ExitStatus st) = uint c"
      by (simp add: statusSeen_def)
  qed
  have k: "Signaled st \<longrightarrow> ExitStatus st = - 1 \<and> statusSeen (ExitStatus st) = 255"
    using ExitStatus_signaled [of st] by (simp add: statusSeen_def)
  show ?thesis using m e k by blast
qed

lemma hirName_example: "hirNameOf envA toyDigest 1700000000 4242 = ''31373030303034323432''"
proof -
  have t1: "itoa (sint (1700000000 + 4242 :: 64 word)) = ''1700004242''"
    by (simp add: itoa_def digitsOf.simps digitChar_def)
  have "makeHierarchyName toyDigest 1700000000 4242 = ''31373030303034323432''"
    unfolding makeHierarchyName_def Let_def t1
    by (simp add: toyDigest_def EncodeToString_def hexDigit_def)
  then show ?thesis
    by (simp add: hirNameOf_def envA_def)
qed

lemma dir_cpu_name: "Dir ''/cg/cpu/31373030303034323432'' = ''/cg/cpu''"
  by (simp add: Dir_def path_eval)

lemma dir_cpu_name_shares: "Dir ''/cg/cpu/31373030303034323432/cpu.shares'' = ''/cg/cpu/31373030303034323432''"
  by (simp add: Dir_def path_eval)

lemma setup_example:
  "fst (setupHierarchy E ''31373030303034323432'' paramsE worldA) = None"
  if "subsysMountPoints E = subsysMountPoints envA" "rejects E = rejects envA"
  using that
  by (simp add: run_eval envA_def worldA_def paramsE_def path_eval dir_cpu_name dir_cpu_name_shares)

theorem launch_reports_exit_status_witness:
  "Pid (opts envA) = None \<and> [''foobar''] \<noteq> [] \<and> ''cgrun'' \<noteq> HelperInitProgName
   \<and> waitResult envA = Inr (push_bit 8 7) \<and> (7 :: 32 word) < 256
   \<and> fst (setupHierarchy envA (hirNameOf envA toyDigest 1700000000 4242) paramsE worldA) = None
   \<and> (\<exists>w'. main envA 0 toyDigest 1700000000 4242 [''cgrun'', ''cpu.shares=1'', ''--'', ''foobar'']
              paramsE [''foobar''] worldA = Some (Exit 7, w'))
   \<and> statusSeen 7 = 7"
proof -
  have a1: "Pid (opts envA) = None" by (simp add: envA_def)
  have a3: "''cgrun'' \<noteq> HelperInitProgName" by (simp add: HelperInitProgName_def)
  have a4: "selfExe envA = Inr ''/usr/bin/cgrun''" by (simp add: envA_def)
  have a5: "startFails envA = None" by (simp add: envA_def)
  have a6: "waitResult envA = Inr (push_bit 8 7)" by (simp add: envA_def)
  have a7: "fst (setupHierarchy envA (hirNameOf envA toyDigest 1700000000 4242) paramsE worldA) = None"
    unfolding hirName_example by (rule setup_example) simp_all
  have e: "ExitStatus (push_bit 8 7) = 7"
    by (simp add: ExitStatus_def Exited_def)
  note t = launch_reports_exit_status [OF a1 _ a3 a4 a5 a6 a7,
      of "[''foobar'']" 0 "[''cpu.shares=1'', ''--'', ''foobar'']"]
  have "\<exists>w'. main envA 0 toyDigest 1700000000 4242 [''cgrun'', ''cpu.shares=1'', ''--'', ''foobar'']
              paramsE [''foobar''] worldA = Some (Exit 7, w')"
    using t unfolding e by simp
  with a1 a3 a6 a7 show ?thesis
    by (simp add: statusSeen_def)
qed

theorem launch_reports_exit_status_counterexample:
  "Signaled 9 \<and> Signal 9 = 9 \<and> waitResult envK = Inr 9
   \<and> conventionalSignalStatus 9 = 137
   \<and> fst (fst (execProgram envK ''h'' paramsE [''foobar''] worldA)) = - 1
   \<and> statusSeen (- 1) = 255"
  by (simp add: Signaled_def Signal_def conventionalSignalStatus_def envK_def envA_def paramsE_def
      execProgram_def osReadlink_def cmdStart_def cmdWait_def Let_def ExitStatus_def Exited_def
      statusSeen_def)

lemma quiet_WriteFile_ok:
  "sigAfter w = None \<Longrightarrow> writable E w p buf \<Longrightarrow>
     WriteFile E p buf w = (None, (emit (EvWriteFile p buf) w)\<lparr>files := (files w)(p \<mapsto> buf)\<rparr>)"
  by (simp add: WriteFile_def writable_def emit_def Let_def)

lemma quiet_WriteFile_fail:
  "sigAfter w = None \<Longrightarrow> \<not> writable E w p buf \<Longrightarrow>
     \<exists>err. WriteFile E p buf w = (Some err, emit (EvWriteFile p buf) w)"
  by (auto simp: WriteFile_def writable_def emit_def Let_def)

lemma helperLoop_quiet:
  "sigAfter w = None \<Longrightarrow> ''--'' \<notin> set tasks \<Longrightarrow>
     \<exists>w' X. helperLoop E pid all (tasks @ ''--'' # target) w =
               ((if joined E w tasks pid then Some target else None), w')
        \<and> trace w' = trace w @ X \<and> sigAfter w' = None \<and> dirs w' = dirs w
        \<and> (if joined E w tasks pid then X = map (\<lambda>t. EvWriteFile t pid) tasks
            else (\<forall>b a. EvExec b a \<notin> set X))"
proof (induction tasks arbitrary: w)
  case Nil
  then show ?case by (simp add: joined_def)
next
  case (Cons t tasks)
  have ne: "t \<noteq> ''--''" using Cons.prems(2) by auto
  show ?case
  proof (cases "writable E w t pid")
    case False
    from quiet_WriteFile_fail [OF Cons.prems(1) False] obtain err
      where "WriteFile E t pid w = (Some err, emit (EvWriteFile t pid) w)" ..
    with ne False Cons.prems(1) show ?thesis
      by (simp add: joined_def eprint_def emit_def)
  next
    case True
    define w1 where "w1 = (emit (EvWriteFile t pid) w)\<lparr>files := (files w)(t \<mapsto> pid)\<rparr>"
    have wr: "WriteFile E t pid w = (None, w1)"
      using quiet_WriteFile_ok [OF Cons.prems(1) True] by (simp add: w1_def)
    have q1: "sigAfter w1 = None" "dirs w1 = dirs w" "trace w1 = trace w @ [EvWriteFile t pid]"
      using Cons.prems(1) by (simp_all add: w1_def emit_def)
    have j: "joined E w1 tasks pid = joined E w tasks pid"
      by (simp add: joined_def writable_def q1)
    from Cons.prems(2) have "''--'' \<notin> set tasks" by simp
    from Cons.IH [OF q1(1) this] obtain w' X where
      ih: "helperLoop E pid all (tasks @ ''--'' # target) w1 =
               ((if joined E w1 tasks pid then Some target else None), w')"
        "trace w' = trace w1 @ X" "sigAfter w' = None" "dirs w' = dirs w1"
        "if joined E w1 tasks pid then X = map (\<lambda>t. EvWriteFile t pid) tasks
            else (\<forall>b a. EvExec b a \<notin> set X)"
      by blast
    have jj: "joined E w (t # tasks) pid = joined E w tasks pid"
      using True by (simp add: joined_def)
    have a: "helperLoop E pid all ((t # tasks) @ ''--'' # target) w =
               ((if joined E w (t # tasks) pid then Some target else None), w')"
      using ne wr ih(1) j jj by simp
    have b: "trace w' = trace w @ (EvWriteFile t pid # X)"
      using ih(2) q1(3) by simp
    have c: "if joined E w (t # tasks) pid
        then EvWriteFile t pid # X = map (\<lambda>t. EvWriteFile t pid) (t # tasks)
        else (\<forall>b a. EvExec b a \<notin> set (EvWriteFile t pid # X))"
      using ih(5) j jj by (simp split: if_splits)
    have d: "sigAfter w' = None \<and> dirs w' = dirs w"
      using ih(3,4) q1(2) by simp
    show ?thesis
      apply (rule exI [where x = w'])
      apply (rule exI [where x = "EvWriteFile t pid # X"])
      using a b c d apply (intro conjI)
          apply assumption+
       apply simp_all
      done
  qed
qed

text \<open>
  C8. Started under the reserved name with task files, the separator and the target's
  command line, and with no signal arriving, the process ends in one of two ways. If the
  write of its own process identifier (decimal text) succeeds for every task file, the
  target's name is found on the search path and \<^verbatim>\<open>execve\<close> does not fail, the process
  image is replaced by the target, with the target's command line, after exactly these
  calls: the writes to the task files in order, the look-up, the \<^verbatim>\<open>execve\<close>. Otherwise
  the process ends with \<^verbatim>\<open>os.Exit(1)\<close> (or, with an empty target command line, with the
  panic status), and no \<^verbatim>\<open>execve\<close> has succeeded: the target is never reached.
\<close>

theorem helper_joins_then_execs:
  assumes "sigAfter w = None" and "''--'' \<notin> set tasks"
  shows "\<exists>out w'.
      main E fuel md5 now ownPid (HelperInitProgName # tasks @ ''--'' # target) ps args w = Some (out, w')
    \<and> (if joined E w tasks (itoa ownPid) \<and> target \<noteq> []
           \<and> (\<exists>binPath. lookPath E (hd target) = Some binPath \<and> execFails E binPath = None)
        then out = Replaced (the (lookPath E (hd target))) target
           \<and> since w w' = map (\<lambda>t. EvWriteFile t (itoa ownPid)) tasks
                @ [EvLookPath (hd target), EvExec (the (lookPath E (hd target))) target]
        else (out = Exit 1 \<or> out = Crashed)
           \<and> (\<forall>b a. EvExec b a \<in> set (since w w') \<longrightarrow> execFails E b \<noteq> None))"
proof -
  let ?pid = "itoa ownPid"
  let ?args0 = "tasks @ ''--'' # target"
  from helperLoop_quiet [OF assms, of E ?pid ?args0 target] obtain w1 X where
    l: "helperLoop E ?pid ?args0 ?args0 w = ((if joined E w tasks ?pid then Some target else None), w1)"
      "trace w1 = trace w @ X" "sigAfter w1 = None"
      "if joined E w tasks ?pid then X = map (\<lambda>t. EvWriteFile t ?pid) tasks
            else (\<forall>b a. EvExec b a \<notin> set X)"
    by blast
  have sw1: "since w w1 = X"
    using l(2) by (simp add: since_def)
  show ?thesis
  proof (cases "joined E w tasks ?pid")
    case False
    with l have "main E fuel md5 now ownPid (HelperInitProgName # ?args0) ps args w = Some (Exit 1, w1)"
      by (simp add: main_def helperMain_def)
    with False l sw1 show ?thesis by auto
  next
    case True
    note j = this
    with l have X: "X = map (\<lambda>t. EvWriteFile t ?pid) tasks" by simp
    have noexec: "\<forall>b a. EvExec b a \<notin> set X" by (auto simp: X)
    show ?thesis
    proof (cases target)
      case Nil
      with j l have "main E fuel md5 now ownPid (HelperInitProgName # ?args0) ps args w = Some (Crashed, w1)"
        by (simp add: main_def helperMain_def)
      with Nil l noexec sw1 show ?thesis by auto
    next
      case (Cons a0 as)
      show ?thesis
      proof (cases "lookPath E a0")
        case None
        define w2 where "w2 = eprint (MsgLookupFailed a0 (PathError ''exec'' a0 ENOENT)) (emit (EvLookPath a0) w1)"
        have "main E fuel md5 now ownPid (HelperInitProgName # ?args0) ps args w = Some (Exit 1, w2)"
          using j l Cons None by (simp add: main_def helperMain_def LookPath_def Let_def w2_def)
        moreover have "since w w2 = X @ [EvLookPath a0, EvStderr (MsgLookupFailed a0 (PathError ''exec'' a0 ENOENT))]"
          using l(2) by (simp add: w2_def eprint_def emit_def since_def)
        ultimately show ?thesis
          using Cons None noexec by auto
      next
        case (Some binPath)
        define w2 where "w2 = emit (EvExec binPath target) (emit (EvLookPath a0) w1)"
        have t2: "trace w2 = trace w @ X @ [EvLookPath a0, EvExec binPath target]"
          using l(2) by (simp add: w2_def emit_def)
        show ?thesis
        proof (cases "execFails E binPath")
          case None
          have "main E fuel md5 now ownPid (HelperInitProgName # ?args0) ps args w
              = Some (Replaced binPath target, w2)"
            using j l Cons Some None
            by (simp add: main_def helperMain_def LookPath_def sysExec_def Let_def w2_def emit_def)
          moreover have "since w w2 = X @ [EvLookPath a0, EvExec binPath target]"
            using t2 by (simp add: since_def)
          ultimately show ?thesis
            using Cons Some None j X by auto
        next
          case (Some e)
          define w3 where "w3 = eprint (MsgCantExec a0 (PathError ''exec'' binPath e)) w2"
          have "main E fuel md5 now ownPid (HelperInitProgName # ?args0) ps args w = Some (Exit 1, w3)"
            using j l Cons \<open>lookPath E a0 = Some binPath\<close> Some
            by (simp add: main_def helperMain_def LookPath_def sysExec_def Let_def w2_def w3_def emit_def)
          moreover have "since w w3 = X @ [EvLookPath a0, EvExec binPath target,
              EvStderr (MsgCantExec a0 (PathError ''exec'' binPath e))]"
            using t2 by (simp add: w3_def eprint_def emit_def since_def)
          ultimately show ?thesis
            using Cons \<open>lookPath E a0 = Some binPath\<close> Some noexec by auto
        qed
      qed
    qed
  qed
qed

lemma dir_cpu_h_tasks: "Dir ''/cg/cpu/h/tasks'' = ''/cg/cpu/h''"
  by (simp add: Dir_def path_eval)

theorem helper_joins_then_execs_witness:
  "sigAfter worldH = None \<and> ''--'' \<notin> set [''/cg/cpu/h/tasks'']
   \<and> joined envA worldH [''/cg/cpu/h/tasks''] (itoa 4243)
   \<and> lookPath envA ''foobar'' = Some ''/usr/bin/foobar'' \<and> execFails envA ''/usr/bin/foobar'' = None
   \<and> (\<exists>w'. main envA 0 toyDigest 0 4243 [HelperInitProgName, ''/cg/cpu/h/tasks'', ''--'', ''foobar'', ''arg1'']
              [] [] worldH = Some (Replaced ''/usr/bin/foobar'' [''foobar'', ''arg1''], w')
        \<and> since worldH w' = [EvWriteFile ''/cg/cpu/h/tasks'' ''4243'', EvLookPath ''foobar'',
              EvExec ''/usr/bin/foobar'' [''foobar'', ''arg1'']])"
proof -
  have q: "sigAfter worldH = None" by (simp add: worldH_def worldA_def)
  have s: "''--'' \<notin> set [''/cg/cpu/h/tasks'']" by simp
  have p: "itoa 4243 = ''4243''" by (simp add: itoa_def digitsOf.simps digitChar_def)
  have j: "joined envA worldH [''/cg/cpu/h/tasks''] (itoa 4243)"
    by (simp add: joined_def writable_def worldH_def worldA_def envA_def dir_cpu_h_tasks)
  have l: "lookPath envA ''foobar'' = Some ''/usr/bin/foobar'' \<and> execFails envA ''/usr/bin/foobar'' = None"
    by (simp add: envA_def)
  from helper_joins_then_execs [OF q s, of envA 0 toyDigest 0 4243 "[''foobar'', ''arg1'']" "[]" "[]"] j l
  have "\<exists>w'. main envA 0 toyDigest 0 4243 [HelperInitProgName, ''/cg/cpu/h/tasks'', ''--'', ''foobar'', ''arg1'']
              [] [] worldH = Some (Replaced ''/usr/bin/foobar'' [''foobar'', ''arg1''], w')
        \<and> since worldH w' = [EvWriteFile ''/cg/cpu/h/tasks'' ''4243'', EvLookPath ''foobar'',
              EvExec ''/usr/bin/foobar'' [''foobar'', ''arg1'']]"
    by (simp add: p)
  with q j l show ?thesis by simp
qed

lemma sigOk_started: "childStarted w \<Longrightarrow> sigOk notRemoval w"
  by (simp add: sigOk_def notRemoval_def)

lemma step_started_keeps: "step P w w' \<Longrightarrow> childStarted w \<Longrightarrow> childStarted w'"
  by (simp add: step_def)

lemma step_writeTasks:
  "childStarted w \<Longrightarrow> step notRemoval w (snd (writeTasks E pid tfs w))"
proof (induction tfs arbitrary: w)
  case Nil
  show ?case by simp
next
  case (Cons t tfs)
  obtain r w1 where r: "WriteFile E t pid w = (r, w1)" by (cases "WriteFile E t pid w")
  have s1: "step notRemoval w w1"
    using step_WriteFile [of notRemoval w t pid E] sigOk_started [OF Cons.prems] r
    by (simp add: notRemoval_def)
  have c1: "childStarted w1" using s1 Cons.prems by (rule step_started_keeps)
  show ?case
    using r s1 step_trans [OF s1 Cons.IH [OF c1]] by (cases r) simp_all
qed

lemma step_scanProc_from_collect:
  assumes A: "\<And>pid w r w'. collectPids E n pid tfs w = Some (r, w') \<Longrightarrow> childStarted w
      \<Longrightarrow> step notRemoval w w'"
  shows "scanProc E n pid tfs names w = Some (r, w') \<Longrightarrow> childStarted w
      \<Longrightarrow> step notRemoval w w'"
proof (induction names arbitrary: w)
  case Nil
  then show ?case by simp
next
  case (Cons name names)
  show ?case
  proof (cases "isPidFile name")
    case False
    with Cons show ?thesis by simp
  next
    case True
    let ?p = "''/proc/'' @ name @ ''/stat''"
    obtain x w1 where x: "ReadFile E ?p w = (x, w1)" by (cases "ReadFile E ?p w")
    have s1: "step notRemoval w w1"
      using step_ReadFile [of notRemoval w ?p E] sigOk_started [OF Cons.prems(2)] x
      by (simp add: notRemoval_def)
    have c1: "childStarted w1" using s1 Cons.prems(2) by (rule step_started_keeps)
    show ?thesis
    proof (cases x)
      case (Inl err)
      with Cons.prems(1) True x s1 show ?thesis by simp
    next
      case (Inr buf)
      show ?thesis
      proof (cases "length (Fields buf) < 4")
        case True
        with Cons.prems(1) \<open>isPidFile name\<close> x Inr s1 show ?thesis by (simp add: Let_def)
      next
        case False
        note long = this
        show ?thesis
        proof (cases "Fields buf ! 3 = pid")
          case False
          with Cons.prems(1) \<open>isPidFile name\<close> x Inr long
          have "scanProc E n pid tfs names w1 = Some (r, w')" by (simp add: Let_def)
          from s1 Cons.IH [OF this c1] show ?thesis by (rule step_trans)
        next
          case True
          obtain y where y: "collectPids E n (Fields buf ! 0) tfs w1 = y" by simp
          show ?thesis
          proof (cases y)
            case None
            with Cons.prems(1) \<open>isPidFile name\<close> x Inr long True y show ?thesis
              by (simp add: Let_def)
          next
            case (Some rw)
            obtain r2 w2 where rw: "rw = (r2, w2)" by (cases rw)
            have s2: "step notRemoval w1 w2"
              using A [of "Fields buf ! 0" w1 r2 w2] y Some rw c1 by simp
            have s12: "step notRemoval w w2" using s1 s2 by (rule step_trans)
            have c2: "childStarted w2" using s2 c1 by (rule step_started_keeps)
            show ?thesis
            proof (cases r2)
              case (Some err)
              with Cons.prems(1) \<open>isPidFile name\<close> x Inr long True y \<open>y = Some rw\<close> rw s12
              show ?thesis by (simp add: Let_def)
            next
              case None
              with Cons.prems(1) \<open>isPidFile name\<close> x Inr long True y \<open>y = Some rw\<close> rw
              have "scanProc E n pid tfs names w2 = Some (r, w')" by (simp add: Let_def)
              from s12 Cons.IH [OF this c2] show ?thesis by (rule step_trans)
            qed
          qed
        qed
      qed
    qed
  qed
qed

lemma step_collectPids:
  "collectPids E n pid tfs w = Some (r, w') \<Longrightarrow> childStarted w \<Longrightarrow> step notRemoval w w'"
proof (induction n arbitrary: pid w r w')
  case 0
  then show ?case by simp
next
  case (Suc n)
  obtain x w1 where x: "writeTasks E pid tfs w = (x, w1)" by (cases "writeTasks E pid tfs w")
  have s1: "step notRemoval w w1"
    using step_writeTasks [OF Suc.prems(2), of E pid tfs] x by simp
  have c1: "childStarted w1" using s1 Suc.prems(2) by (rule step_started_keeps)
  show ?case
  proof (cases x)
    case (Some err)
    with Suc.prems(1) x s1 show ?thesis by simp
  next
    case None
    show ?thesis
    proof (cases "Tree (opts E)")
      case False
      with Suc.prems(1) x None s1 show ?thesis by simp
    next
      case True
      obtain y w2 where y: "readProcNames E w1 = (y, w2)" by (cases "readProcNames E w1")
      have s2: "step notRemoval w1 w2"
        using step_readProcNames [of notRemoval w1 E] sigOk_started [OF c1] y
        by (simp add: notRemoval_def)
      have s12: "step notRemoval w w2" using s1 s2 by (rule step_trans)
      have c2: "childStarted w2" using s2 c1 by (rule step_started_keeps)
      show ?thesis
      proof (cases y)
        case (Inl err)
        with Suc.prems(1) x None True y s12 show ?thesis by simp
      next
        case (Inr names)
        with Suc.prems(1) x None True y
        have sc: "scanProc E n pid tfs names w2 = Some (r, w')" by simp
        have A: "\<And>pid w r w'. collectPids E n pid tfs w = Some (r, w') \<Longrightarrow> childStarted w
            \<Longrightarrow> step notRemoval w w'"
          using Suc.IH by blast
        have "step notRemoval w2 w'"
          using A sc c2 by (rule step_scanProc_from_collect)
        with s12 show ?thesis by (rule step_trans)
      qed
    qed
  qed
qed

lemma step_waitNonChildPid:
  "waitNonChildPid E n pid w = Some w' \<Longrightarrow> childStarted w \<Longrightarrow> step notRemoval w w'"
proof (induction n arbitrary: w)
  case 0
  then show ?case by simp
next
  case (Suc n)
  obtain b w1 where b: "sysKill E pid w = (b, w1)" by (cases "sysKill E pid w")
  have s1: "step notRemoval w w1"
    using step_sysKill [of notRemoval w pid E] sigOk_started [OF Suc.prems(2)] b
    by (simp add: notRemoval_def)
  have c1: "childStarted w1" using s1 Suc.prems(2) by (rule step_started_keeps)
  show ?case
  proof (cases b)
    case False
    with Suc.prems(1) b s1 show ?thesis by simp
  next
    case True
    have s2: "step notRemoval w1 (timeSleep E w1)"
      using step_timeSleep [of notRemoval w1 E] sigOk_started [OF c1] by (simp add: notRemoval_def)
    have c2: "childStarted (timeSleep E w1)" using s2 c1 by (rule step_started_keeps)
    from Suc.prems(1) b True have "waitNonChildPid E n pid (timeSleep E w1) = Some w'" by simp
    from Suc.IH [OF this c2] have "step notRemoval (timeSleep E w1) w'" .
    then show ?thesis
      using step_trans [OF s1 step_trans [OF s2]] by blast
  qed
qed

lemma removals_notRemoval: "list_all notRemoval X \<Longrightarrow> removals X = []"
  by (induction X) (auto simp: removals_def notRemoval_def split: event.splits)

lemma step_seizePid:
  assumes "seizePid E fuel h ps pid w = Some (r, w')"
  shows "step notRemoval w w' \<and> childStarted w'"
proof -
  define w1 where "w1 = w\<lparr>childStarted := True\<rparr>"
  have s0: "step notRemoval w w1" by (simp add: w1_def step_started)
  have c1: "childStarted w1" by (simp add: w1_def)
  show ?thesis
  proof (cases "getTasksFiles E h ps")
    case (Inl err)
    with assms have "w' = w1" by (simp add: seizePid_def w1_def)
    with s0 c1 show ?thesis by simp
  next
    case (Inr tfs)
    obtain y where y: "collectPids E fuel (itoa pid) tfs w1 = y" by simp
    show ?thesis
    proof (cases y)
      case None
      with assms Inr y show ?thesis by (simp add: seizePid_def w1_def [symmetric] Let_def)
    next
      case (Some rw)
      obtain r2 w2 where rw: "rw = (r2, w2)" by (cases rw)
      have s1: "step notRemoval w1 w2"
        using step_collectPids [of E fuel "itoa pid" tfs w1 r2 w2] y Some rw c1 by simp
      have s01: "step notRemoval w w2" using s0 s1 by (rule step_trans)
      have c2: "childStarted w2" using s1 c1 by (rule step_started_keeps)
      show ?thesis
      proof (cases r2)
        case (Some err)
        with assms Inr y \<open>y = Some rw\<close> rw have "w' = w2"
          by (simp add: seizePid_def w1_def [symmetric] Let_def)
        with s01 c2 show ?thesis by simp
      next
        case None
        define w3 where "w3 = eprint (MsgHierName h) w2"
        have s2: "step notRemoval w2 w3"
          by (simp add: w3_def step_eprint notRemoval_def)
        have c3: "childStarted w3" using s2 c2 by (rule step_started_keeps)
        from assms Inr y \<open>y = Some rw\<close> rw None
        have "waitNonChildPid E fuel pid w3 = Some w'"
          by (simp add: seizePid_def w1_def [symmetric] w3_def Let_def split: option.splits)
        from step_waitNonChildPid [OF this c3]
        have s3: "step notRemoval w3 w'" .
        have "step notRemoval w w'"
          using step_trans [OF s01 step_trans [OF s2 s3]] .
        moreover have "childStarted w'" using s3 c3 by (rule step_started_keeps)
        ultimately show ?thesis by simp
      qed
    qed
  qed
qed

text \<open>
  C10. \<^verbatim>\<open>seizePid\<close> sets \<^verbatim>\<open>childStarted\<close> before it does anything else: its result does not
  depend on the value the flag had, and the flag is set when it returns. Whenever it
  returns, whatever the handler installed and at whichever system call of the attach (the
  task-file writes, the scan of the process table, the probes) a signal arrives, no
  \<^verbatim>\<open>os.Remove\<close> has been issued since \<^verbatim>\<open>seizePid\<close> began: the signal goroutine has not run the
  teardown. The removals up to the end of the deferred teardown that \<^verbatim>\<open>initialMain\<close> runs
  afterwards are exactly those of that teardown, one per mounted subsystem.
\<close>

theorem seizePid_signal_never_destroys:
  assumes "seizePid E fuel h ps pid w = Some (r, w')"
  shows "removals (since w w') = []
       \<and> childStarted w'
       \<and> seizePid E fuel h ps pid (w\<lparr>childStarted := b\<rparr>) = seizePid E fuel h ps pid (w\<lparr>childStarted := True\<rparr>)
       \<and> removals (since w (cleanupHierarchy E h ps w')) = hierarchyPaths E h ps"
proof -
  from step_seizePid [OF assms] have s: "step notRemoval w w'" and c: "childStarted w'" by simp_all
  from step_since [OF s] have t: "trace w' = trace w @ since w w'" and n: "list_all notRemoval (since w w')"
    by blast+
  have r1: "removals (since w w') = []"
    using n by (rule removals_notRemoval)
  have r2: "seizePid E fuel h ps pid (w\<lparr>childStarted := b\<rparr>) = seizePid E fuel h ps pid (w\<lparr>childStarted := True\<rparr>)"
    by (simp add: seizePid_def)
  have "trace (cleanupHierarchy E h ps w') = trace w @ (since w w' @ cleanupEvents E w' (hierarchyPaths E h ps))"
    using t by (simp add: cleanup_fold fold_trace)
  then have "since w (cleanupHierarchy E h ps w') = since w w' @ cleanupEvents E w' (hierarchyPaths E h ps)"
    by (rule since_append)
  then have r3: "removals (since w (cleanupHierarchy E h ps w')) = hierarchyPaths E h ps"
    by (simp add: r1 events_removals)
  show ?thesis using r1 c r2 r3 by simp
qed

lemmas attach_eval = seizePid_def WriteFile_def ReadFile_def readProcNames_def sysKill_def
  timeSleep_def deliver_def emit_def eprint_def Let_def domIff since_def

lemma itoa_40: "itoa 40 = ''40''"
  by (simp add: itoa_def digitsOf.simps digitChar_def)

theorem seizePid_signal_never_destroys_witness:
  "sigHandler worldS = Some (''h'', paramsE) \<and> sigAfter worldS = Some 0 \<and> \<not> childStarted worldS
   \<and> (\<exists>w'. seizePid envA (Suc (Suc (Suc 0))) ''h'' paramsE 40 worldS = Some (None, w')
         \<and> since worldS w' =
             [EvSignal, EvWriteFile ''/cg/cpu/h/tasks'' ''40'', EvStderr (MsgHierName ''h''),
              EvKill 40, EvSleep, EvKill 40, EvSleep, EvKill 40]
         \<and> removals (since worldS w') = []
         \<and> childStarted w'
         \<and> removals (since worldS (cleanupHierarchy envA ''h'' paramsE w')) = [''/cg/cpu/h''])"
proof -
  have pre: "sigHandler worldS = Some (''h'', paramsE) \<and> sigAfter worldS = Some 0 \<and> \<not> childStarted worldS"
    by (simp add: worldS_def worldH_def worldA_def)
  have run: "\<exists>w'. seizePid envA (Suc (Suc (Suc 0))) ''h'' paramsE 40 worldS = Some (None, w')
         \<and> since worldS w' =
             [EvSignal, EvWriteFile ''/cg/cpu/h/tasks'' ''40'', EvStderr (MsgHierName ''h''),
              EvKill 40, EvSleep, EvKill 40, EvSleep, EvKill 40]"
    by (simp add: attach_eval itoa_40 worldS_def worldH_def worldA_def envA_def paramsE_def
        path_eval dir_cpu_h_tasks)
  then obtain w' where w': "seizePid envA (Suc (Suc (Suc 0))) ''h'' paramsE 40 worldS = Some (None, w')"
      "since worldS w' =
             [EvSignal, EvWriteFile ''/cg/cpu/h/tasks'' ''40'', EvStderr (MsgHierName ''h''),
              EvKill 40, EvSleep, EvKill 40, EvSleep, EvKill 40]"
    by blast
  have paths: "hierarchyPaths envA ''h'' paramsE = [''/cg/cpu/h'']"
    by (simp add: envA_def paramsE_def path_eval)
  from seizePid_signal_never_destroys [OF w'(1)]
  have "removals (since worldS w') = [] \<and> childStarted w'
      \<and> removals (since worldS (cleanupHierarchy envA ''h'' paramsE w')) = [''/cg/cpu/h'']"
    by (simp add: paths)
  with pre w' show ?thesis by blast
qed

lemma name_example:
  "makeHierarchyName toyDigest 1700000000 4242 = ''31373030303034323432''"
proof -
  have t1: "itoa 1700004242 = ''1700004242''"
    by (simp add: itoa_def digitsOf.simps digitChar_def)
  show ?thesis
    unfolding makeHierarchyName_def Let_def
    by (simp add: t1 toyDigest_def EncodeToString_def hexDigit_def)
qed

lemma signal_run_setup:
  "setupHierarchy envA ''31373030303034323432'' paramsE worldT = (None, worldT1)"
  by (simp add: run_eval deliver_def worldT_def worldT1_def worldA_def envA_def paramsE_def
      path_eval dir_cpu_name dir_cpu_name_shares)

lemma signal_run_exec:
  "fst (execProgram envA ''31373030303034323432'' paramsE [''foobar''] worldT1) = (7, None)"
  "trace (snd (execProgram envA ''31373030303034323432'' paramsE [''foobar''] worldT1)) =
     [EvMkdir ''/cg/cpu/31373030303034323432'' 488,
      EvWriteFile ''/cg/cpu/31373030303034323432/cpu.shares'' ''1'',
      EvSignal,
      EvRemove ''/cg/cpu/31373030303034323432'',
      EvReadlink ''/proc/self/exe'',
      EvStart ''/usr/bin/cgrun''
        [HelperInitProgName, ''/cg/cpu/31373030303034323432/tasks'', ''--'', ''foobar''],
      EvStderr (MsgHierName ''31373030303034323432''),
      EvWait]"
  "dirs (snd (execProgram envA ''31373030303034323432'' paramsE [''foobar''] worldT1))
     ''/cg/cpu/31373030303034323432'' = None"
  "files (snd (execProgram envA ''31373030303034323432'' paramsE [''foobar''] worldT1))
     ''/cg/cpu/31373030303034323432'' = None"
  by (simp_all add: execProgram_def osReadlink_def cmdStart_def cmdWait_def deliver_def
      osRemove_def emit_def eprint_def IsNotExist_def Let_def domIff ExitStatus_def Exited_def
      worldT1_def worldA_def envA_def paramsE_def path_eval)

text \<open>
  C1 (the code at the failing input). Launch mode, the signal arriving at the first
  system call after \<^verbatim>\<open>setupHierarchy\<close> has returned without error, while \<^verbatim>\<open>childStarted\<close>
  is still false: the signal goroutine removes the hierarchy directory, and the main flow
  goes on: it reads \<^verbatim>\<open>/proc/self/exe\<close>, starts the helper, waits for it and returns the
  child's exit status 7. The process has not exited at the signal, and the launch has
  been reached.
\<close>

theorem signal_before_start_continues:
  "sigAfter worldT = Some 2 \<and> \<not> childStarted worldT
   \<and> (\<exists>w'. initialMain envA 0 toyDigest 1700000000 4242 paramsE [''foobar''] worldT = Some (7, w')
         \<and> since worldT w' =
             [EvMkdir ''/cg/cpu/31373030303034323432'' 488,
              EvWriteFile ''/cg/cpu/31373030303034323432/cpu.shares'' ''1'',
              EvSignal,
              EvRemove ''/cg/cpu/31373030303034323432'',
              EvReadlink ''/proc/self/exe'',
              EvStart ''/usr/bin/cgrun''
                [HelperInitProgName, ''/cg/cpu/31373030303034323432/tasks'', ''--'', ''foobar''],
              EvStderr (MsgHierName ''31373030303034323432''),
              EvWait,
              EvRemove ''/cg/cpu/31373030303034323432''])"
proof -
  let ?n = "''31373030303034323432''"
  define w2 where "w2 = snd (execProgram envA ?n paramsE [''foobar''] worldT1)"
  have x: "execProgram envA ?n paramsE [''foobar''] worldT1 = ((7, None), w2)"
    using signal_run_exec(1) by (simp add: w2_def prod_eq_iff)
  have o: "Pid (opts envA) = None" "Parent (opts envA) = ''/''"
    by (simp_all add: envA_def)
  have m: "initialMain envA 0 toyDigest 1700000000 4242 paramsE [''foobar''] worldT
      = Some (7, cleanupHierarchy envA ?n paramsE w2)"
    by (simp add: initialMain_def Let_def name_example signal_run_setup x o)
  have paths: "hierarchyPaths envA ?n paramsE = [''/cg/cpu/31373030303034323432'']"
    by (simp add: envA_def paramsE_def path_eval)
  have t: "trace (cleanupHierarchy envA ?n paramsE w2) =
      trace w2 @ [EvRemove ''/cg/cpu/31373030303034323432'']"
    using signal_run_exec(3,4)
    by (simp add: cleanup_fold removeStep_trace paths removeReport_def w2_def [symmetric] domIff)
  have s: "since worldT (cleanupHierarchy envA ?n paramsE w2) =
      trace w2 @ [EvRemove ''/cg/cpu/31373030303034323432'']"
    by (simp add: since_def t worldT_def worldA_def)
  have pre: "sigAfter worldT = Some 2 \<and> \<not> childStarted worldT"
    by (simp add: worldT_def worldA_def)
  show ?thesis
    using pre m s signal_run_exec(2) by (simp add: w2_def)
qed

end
